theory Spec2Isabelle
  imports Complex_Main "HOL-Library.Word"
begin

section \<open>The upload-convert-preview controller of \<open>src/app/page.tsx\<close>\<close>

text \<open>
  The component \<open>HomePage\<close> holds seven pieces of React state, two refs, and four
  callbacks (\<open>resetUrls\<close>, \<open>ensureFFmpeg\<close>, \<open>handleFileChange\<close>, \<open>handleConvert\<close>).
  Each callback is modelled as a function on a record of that state. The answers of the
  engine and of the browser (which \<open>await\<close> rejects, which bytes come back, which
  progress fractions are reported) are an explicit argument, so every \<open>throw\<close> of the
  source is a branch of the model.

  A callback is first modelled as running to completion on the state it is called in
  (\<open>handleFileChange\<close>, \<open>handleConvert\<close>). Two things happen around a callback
  in the mounted component, and both are modelled on top of that: after the state
  updates of a callback React renders and re-runs the effect of lines 88--93 when its
  dependency has changed (\<open>commit\<close>, \<open>onChange\<close>, \<open>onClick\<close>); and a call of
  \<open>ensureFFmpeg\<close> is suspended at its two \<open>await\<close>s, so that another call can
  run in between (\<open>bootstrapStart\<close>, \<open>bootstrapImported\<close>, \<open>bootstrapLoaded\<close>).
\<close>

subsection \<open>File names (line 110)\<close>

text \<open>
  File names are strings of ASCII characters. \<open>split\<close> is \<open>String.prototype.split\<close> with
  a one-character separator: it always returns at least one piece.
\<close>

fun split :: "char \<Rightarrow> string \<Rightarrow> string list" where
  "split sep [] = [[]]"
| "split sep (c # cs) =
     (if c = sep then [] # split sep cs
      else (case split sep cs of
              [] \<Rightarrow> [[c]]
            | p # ps \<Rightarrow> (c # p) # ps))"

text \<open>\<open>Array.prototype.pop\<close>: the last element, \<open>undefined\<close> (here \<open>None\<close>) on an empty array.\<close>

definition pop :: "'a list \<Rightarrow> 'a option" where
  "pop xs = (if xs = [] then None else Some (last xs))"

definition toLowerCase_char :: "char \<Rightarrow> char" where
  "toLowerCase_char c =
     (case map_of (zip ''ABCDEFGHIJKLMNOPQRSTUVWXYZ'' ''abcdefghijklmnopqrstuvwxyz'') c of
        None \<Rightarrow> c
      | Some l \<Rightarrow> l)"

definition toLowerCase :: "string \<Rightarrow> string" where
  "toLowerCase s = map toLowerCase_char s"

text \<open>The character class \<open>[a-z0-9]\<close> and \<open>.replace(/[^a-z0-9]/g, '')\<close>.\<close>

definition alnum_lower :: "char \<Rightarrow> bool" where
  "alnum_lower c \<longleftrightarrow> c \<in> set ''abcdefghijklmnopqrstuvwxyz0123456789''"

definition strip_non_alnum :: "string \<Rightarrow> string" where
  "strip_non_alnum s = filter alnum_lower s"

text \<open>
  JavaScript's \<open>a || b\<close> on strings: \<open>b\<close> when \<open>a\<close> is the empty string, \<open>a\<close> otherwise.
\<close>

definition js_or :: "string \<Rightarrow> string \<Rightarrow> string" where
  "js_or a b = (if a = [] then b else a)"

text \<open>
  Line 110:
  \<^verbatim>\<open>'source.' + inputFile.name.split('.').pop()?.toLowerCase().replace(/[^a-z0-9]/g, '') || 'mp4'\<close>.
  Binary \<open>+\<close> binds tighter than \<open>||\<close>, so the left operand of \<open>||\<close> is the whole
  concatenation. An \<open>undefined\<close> from the optional chain would be concatenated as the text
  \<open>undefined\<close>.
\<close>

definition sanitized_ext :: "string \<Rightarrow> string" where
  "sanitized_ext fname =
     (case pop (split (CHR ''.'') fname) of
        None \<Rightarrow> ''undefined''
      | Some e \<Rightarrow> strip_non_alnum (toLowerCase e))"

definition inputName :: "string \<Rightarrow> string" where
  "inputName fname = js_or (''source.'' @ sanitized_ext fname) ''mp4''"

definition outputName :: string where
  "outputName = ''realified.mp4''"

subsection \<open>Data\<close>

text \<open>Line 7: the type \<open>Stage\<close>.\<close>

datatype Stage = Idle | LoadingCore | Ready | Processing | Complete | Error

text \<open>
  The status texts passed to \<open>setStageMessage\<close>, one constructor per literal of the source
  (lines 15, 42, 51, 62, 82, 105, 128, 146, 160, 165); \<open>MsgAnalyzing c\<close> is the template
  of line 51 with the percentage \<open>c\<close>.
\<close>

datatype stage_message =
    MsgDropIn | MsgBooting | MsgAnalyzing int | MsgCoreReady | MsgReadyToRebuild
  | MsgRelighting | MsgSynthesizing | MsgFinalizing | MsgDone | MsgWentWrong

type_synonym bytes = "8 word list"

text \<open>A \<open>File\<close> of the file picker: its name and its bytes.\<close>

record File =
  name :: string
  content :: bytes

text \<open>What an object URL refers to: the picked file, or a \<open>Blob\<close> built from bytes with a MIME type.\<close>

datatype blob = FileBlob File | Blob bytes string

text \<open>
  What a rejected \<open>await\<close> throws, as far as line 167 distinguishes it: an instance of
  \<open>Error\<close> with its message, or any other value.
\<close>

datatype thrown = ErrorObj string | NonError

text \<open>
  The observable effects, in the order the code performs them: the two state setters whose
  history the properties talk about, the calls to the engine (\<open>import\<close>, \<open>new\<close>,
  \<open>on\<close>, \<open>load\<close>, \<open>deleteFile\<close>, \<open>writeFile\<close>, \<open>exec\<close>, \<open>readFile\<close>) and to
  \<open>fetchFile\<close>, and the two calls to the browser's object-URL registry.
\<close>

datatype effect =
    SetStage Stage
  | SetProgress int
  | Import
  | NewFFmpeg nat
  | OnProgress nat
  | Load nat
  | FetchFile
  | DeleteFile string
  | WriteFile string bytes
  | Exec "string list"
  | ReadFile string
  | CreateObjectURL nat
  | RevokeObjectURL nat

fun progress_values :: "effect list \<Rightarrow> int list" where
  "progress_values [] = []"
| "progress_values (SetProgress v # es) = v # progress_values es"
| "progress_values (_ # es) = progress_values es"

fun stage_values :: "effect list \<Rightarrow> Stage list" where
  "stage_values [] = []"
| "stage_values (SetStage v # es) = v # stage_values es"
| "stage_values (_ # es) = stage_values es"

text \<open>
  The controller: the React state of lines 14--20, the refs of lines 22--23 (an engine
  instance is a number, handed out by \<open>instNext\<close>), the browser's registry of live object
  URLs (a URL is a number, handed out by \<open>urlNext\<close>), and the effects so far.
\<close>

record controller =
  stage :: Stage
  stageMessage :: stage_message
  progress :: int
  sourceUrl :: "nat option"
  resultUrl :: "nat option"
  fileName :: "string option"
  error :: "string option"
  ffmpegRef :: "nat option"
  fileRef :: "File option"
  urlStore :: "nat \<rightharpoonup> blob"
  urlNext :: nat
  instNext :: nat
  trace :: "effect list"

text \<open>
  The answers of the outside world during one run of \<open>handleConvert\<close>: for each awaited
  call that can reject, what it throws (\<open>None\<close>: it resolves); the fractions the engine
  reports through its \<open>progress\<close> event while \<open>exec\<close> runs; the bytes \<open>readFile\<close>
  returns. The two deletions of lines 116 and 121 have a \<open>try\<close> of their own with an
  empty \<open>catch\<close>, so their answer changes nothing; the deletions of lines 151--152 share
  one \<open>try\<close>, so the answer of the first decides whether the second is called.
\<close>

record env =
  importRes :: "thrown option"
  loadRes :: "thrown option"
  fetchRes :: "thrown option"
  writeRes :: "thrown option"
  execProgress :: "real list"
  execRes :: "thrown option"
  readRes :: "thrown + bytes"
  postDelIn :: "thrown option"

definition initial :: controller where
  "initial = \<lparr> stage = Idle, stageMessage = MsgDropIn, progress = 0, sourceUrl = None,
     resultUrl = None, fileName = None, error = None, ffmpegRef = None, fileRef = None,
     urlStore = Map.empty, urlNext = 0, instNext = 0, trace = [] \<rparr>"

subsection \<open>Setters and browser calls\<close>

definition emit :: "effect \<Rightarrow> controller \<Rightarrow> controller" where
  "emit e s = s\<lparr>trace := trace s @ [e]\<rparr>"

definition setStage :: "Stage \<Rightarrow> controller \<Rightarrow> controller" where
  "setStage v s = emit (SetStage v) (s\<lparr>stage := v\<rparr>)"

definition setProgress :: "int \<Rightarrow> controller \<Rightarrow> controller" where
  "setProgress v s = emit (SetProgress v) (s\<lparr>progress := v\<rparr>)"

definition setStageMessage :: "stage_message \<Rightarrow> controller \<Rightarrow> controller" where
  "setStageMessage v s = s\<lparr>stageMessage := v\<rparr>"

definition setError :: "string option \<Rightarrow> controller \<Rightarrow> controller" where
  "setError v s = s\<lparr>error := v\<rparr>"

definition setSourceUrl :: "nat option \<Rightarrow> controller \<Rightarrow> controller" where
  "setSourceUrl v s = s\<lparr>sourceUrl := v\<rparr>"

definition setResultUrl :: "nat option \<Rightarrow> controller \<Rightarrow> controller" where
  "setResultUrl v s = s\<lparr>resultUrl := v\<rparr>"

definition setFileName :: "string option \<Rightarrow> controller \<Rightarrow> controller" where
  "setFileName v s = s\<lparr>fileName := v\<rparr>"

text \<open>\<open>URL.createObjectURL\<close> registers the blob under a fresh URL; \<open>URL.revokeObjectURL\<close> removes it.\<close>

definition createObjectURL :: "blob \<Rightarrow> controller \<Rightarrow> nat \<times> controller" where
  "createObjectURL b s =
     (let u = urlNext s
      in (u, emit (CreateObjectURL u) (s\<lparr>urlStore := (urlStore s)(u \<mapsto> b), urlNext := Suc u\<rparr>)))"

definition revokeObjectURL :: "nat \<Rightarrow> controller \<Rightarrow> controller" where
  "revokeObjectURL u s = emit (RevokeObjectURL u) (s\<lparr>urlStore := (urlStore s)(u := None)\<rparr>)"

subsection \<open>\<open>resetUrls\<close> (lines 25--34)\<close>

definition resetUrls :: "controller \<Rightarrow> controller" where
  "resetUrls s =
     (let s1 = (case sourceUrl s of Some u \<Rightarrow> revokeObjectURL u s | None \<Rightarrow> s);
          s2 = (case resultUrl s of Some u \<Rightarrow> revokeObjectURL u s1 | None \<Rightarrow> s1)
      in setResultUrl None (setSourceUrl None s2))"

subsection \<open>\<open>ensureFFmpeg\<close> (lines 36--66)\<close>

text \<open>\<open>Math.round\<close> rounds to the nearest integer, a tie towards \<open>+\<infinity>\<close>.\<close>

definition js_round :: "real \<Rightarrow> int" where
  "js_round x = \<lfloor>x + 1 / 2\<rfloor>"

text \<open>Line 49: \<open>Math.min(97, Math.round(currentProgress * 100))\<close>.\<close>

definition computed :: "real \<Rightarrow> int" where
  "computed currentProgress = min 97 (js_round (currentProgress * 100))"

text \<open>The handler registered at line 48.\<close>

definition progressHandler :: "real \<Rightarrow> controller \<Rightarrow> controller" where
  "progressHandler currentProgress s =
     (let c = computed currentProgress
      in setStageMessage (MsgAnalyzing c) (setProgress c s))"

definition ensureFFmpeg :: "env \<Rightarrow> controller \<Rightarrow> (thrown + nat) \<times> controller" where
  "ensureFFmpeg e s =
     (case ffmpegRef s of
        Some inst \<Rightarrow> (Inr inst, s)
      | None \<Rightarrow>
          (let s1 = setProgress 5 (setStageMessage MsgBooting (setStage LoadingCore s));
               s2 = emit Import s1
           in case importRes e of
                Some t \<Rightarrow> (Inl t, s2)
              | None \<Rightarrow>
                  (let inst = instNext s2;
                       s3 = emit (NewFFmpeg inst) (s2\<lparr>instNext := Suc inst\<rparr>);
                       s4 = emit (OnProgress inst) s3;
                       s5 = emit (Load inst) s4
                   in case loadRes e of
                        Some t \<Rightarrow> (Inl t, s5)
                      | None \<Rightarrow>
                          (Inr inst,
                           setProgress 0 (setStageMessage MsgCoreReady
                             (setStage Ready (s5\<lparr>ffmpegRef := Some inst\<rparr>)))))))"

text \<open>
  The same function in the three pieces between which it is suspended, for a call that
  finds no engine at line 37. \<open>bootstrapStart\<close> is lines 41--45, up to the
  \<open>await import\<close>. \<open>bootstrapImported\<close> is lines 45--54, from the resolved import
  up to the \<open>await instance.load\<close>; it yields the instance the call holds in its local
  \<open>instance\<close>. \<open>bootstrapLoaded\<close> is lines 60--63, from the resolved load to the
  return; line 60 assigns the instance of this call without reading \<open>ffmpegRef\<close> again.
\<close>

definition bootstrapStart :: "controller \<Rightarrow> controller" where
  "bootstrapStart s =
     emit Import (setProgress 5 (setStageMessage MsgBooting (setStage LoadingCore s)))"

definition bootstrapImported :: "controller \<Rightarrow> nat \<times> controller" where
  "bootstrapImported s =
     (let inst = instNext s;
          s3 = emit (NewFFmpeg inst) (s\<lparr>instNext := Suc inst\<rparr>);
          s4 = emit (OnProgress inst) s3
      in (inst, emit (Load inst) s4))"

definition bootstrapLoaded :: "nat \<Rightarrow> controller \<Rightarrow> controller" where
  "bootstrapLoaded inst s =
     setProgress 0 (setStageMessage MsgCoreReady (setStage Ready (s\<lparr>ffmpegRef := Some inst\<rparr>)))"

subsection \<open>\<open>handleFileChange\<close> (lines 68--86)\<close>

text \<open>The argument is \<open>event.target.files?.[0]\<close>: the picked file, if there is one.\<close>

definition handleFileChange :: "File option \<Rightarrow> controller \<Rightarrow> controller" where
  "handleFileChange picked s =
     (case picked of
        None \<Rightarrow> s
      | Some f \<Rightarrow>
          (let s1 = setError None (resetUrls s);
               (objectUrl, s2) = createObjectURL (FileBlob f) s1;
               s3 = s2\<lparr>fileRef := Some f\<rparr>
           in setProgress 0 (setStageMessage MsgReadyToRebuild (setStage Ready
                (setFileName (Some (name f)) (setSourceUrl (Some objectUrl) s3))))))"

subsection \<open>\<open>handleConvert\<close> (lines 95--172)\<close>

text \<open>Lines 9--11; the JavaScript literal \<open>\\,\<close> is a backslash and a comma.\<close>

definition HUMANIZING_FILTER :: string where
  "HUMANIZING_FILTER =
     ''fps=min(30'' @ [CHR 0x5C] @
     '',fps),scale=iw:ih:flags=bicubic,eq=contrast=1.12:brightness=0.02:saturation=1.28:gamma=1.03,'' @
     ''unsharp=5:5:0.85:5:5:0.35,noise=alls=12:allf=t+u,format=yuv420p''"

text \<open>The argument list of line 130.\<close>

definition execArgs :: "string \<Rightarrow> string list" where
  "execArgs inName =
     [''-i'', inName, ''-vf'', HUMANIZING_FILTER, ''-c:v'', ''libx264'', ''-preset'',
      ''veryfast'', ''-crf'', ''20'', ''-c:a'', ''copy'', outputName]"

text \<open>
  Lines 104--161, the part of the \<open>try\<close> block after \<open>ensureFFmpeg\<close> has returned. The
  file is the one the guard of line 96 found: nothing before line 109 writes \<open>fileRef\<close>.
\<close>

definition processing :: "env \<Rightarrow> File \<Rightarrow> controller \<Rightarrow> (thrown + unit) \<times> controller" where
  "processing e inputFile s =
     (let s1 = setError None (setProgress 8 (setStageMessage MsgRelighting (setStage Processing s)));
          inName = inputName (name inputFile);
          s2 = emit FetchFile s1
      in case fetchRes e of
           Some t \<Rightarrow> (Inl t, s2)
         | None \<Rightarrow>
             (let data = content inputFile;
                  s3 = emit (DeleteFile inName) s2;
                  s4 = emit (DeleteFile outputName) s3;
                  s5 = emit (WriteFile inName data) s4
              in case writeRes e of
                   Some t \<Rightarrow> (Inl t, s5)
                 | None \<Rightarrow>
                     (let s6 = setStageMessage MsgSynthesizing s5;
                          s7 = emit (Exec (execArgs inName)) s6;
                          s8 = fold progressHandler (execProgress e) s7
                      in case execRes e of
                           Some t \<Rightarrow> (Inl t, s8)
                         | None \<Rightarrow>
                             (let s9 = setProgress 98 (setStageMessage MsgFinalizing s8);
                                  s10 = emit (ReadFile outputName) s9
                              in case readRes e of
                                   Inl t \<Rightarrow> (Inl t, s10)
                                 | Inr outputData \<Rightarrow>
                                     (let s11 = emit (DeleteFile inName) s10;
                                          s12 = (case postDelIn e of
                                                   Some t \<Rightarrow> s11
                                                 | None \<Rightarrow> emit (DeleteFile outputName) s11);
                                          (url, s13) = createObjectURL (Blob outputData ''video/mp4'') s12
                                      in (Inr (),
                                          setProgress 100 (setStageMessage MsgDone
                                            (setStage Complete (setResultUrl (Some url) s13)))))))))"

text \<open>Lines 101--161: the \<open>try\<close> block.\<close>

definition tryBlock :: "env \<Rightarrow> File \<Rightarrow> controller \<Rightarrow> (thrown + unit) \<times> controller" where
  "tryBlock e inputFile s =
     (case ensureFFmpeg e s of
        (Inl t, s1) \<Rightarrow> (Inl t, s1)
      | (Inr ffmpeg, s1) \<Rightarrow> processing e inputFile s1)"

text \<open>Lines 162--171: the \<open>catch\<close> block (the \<open>console.error\<close> is not modelled).\<close>

definition errorMessage :: "thrown \<Rightarrow> string" where
  "errorMessage conversionError =
     (case conversionError of
        ErrorObj message \<Rightarrow> message
      | NonError \<Rightarrow> ''Unexpected error while converting video.'')"

definition catchBlock :: "thrown \<Rightarrow> controller \<Rightarrow> controller" where
  "catchBlock conversionError s =
     setError (Some (errorMessage conversionError))
       (setStageMessage MsgWentWrong (setStage Error s))"

definition handleConvert :: "env \<Rightarrow> controller \<Rightarrow> controller" where
  "handleConvert e s =
     (case fileRef s of
        None \<Rightarrow> setError (Some ''Upload an animated clip first.'') s
      | Some inputFile \<Rightarrow>
          (case tryBlock e inputFile s of
             (Inl conversionError, s1) \<Rightarrow> catchBlock conversionError s1
           | (Inr u, s1) \<Rightarrow> s1))"

subsection \<open>The convert button (lines 223--230)\<close>

text \<open>The \<open>disabled\<close> attribute of line 227.\<close>

definition convertDisabled :: "controller \<Rightarrow> bool" where
  "convertDisabled s \<longleftrightarrow>
     stage s = Processing \<or> (fileRef s = None \<and> stage s \<noteq> LoadingCore)"

text \<open>A click on the button: a disabled button does not call \<open>onClick\<close>.\<close>

definition clickConvert :: "env \<Rightarrow> controller \<Rightarrow> controller" where
  "clickConvert e s = (if convertDisabled s then s else handleConvert e s)"

subsection \<open>The effect of lines 88--93 and React's commits\<close>

text \<open>
  \<open>resetUrls\<close> is re-created in every render in which \<open>sourceUrl\<close> or \<open>resultUrl\<close>
  differs from the render before (the dependencies of line 34), and it reads the two
  values of the render that created it. \<open>resetUrlsOf src res\<close> is the \<open>resetUrls\<close>
  of a render in which the two had the values \<open>src\<close> and \<open>res\<close>; the \<open>resetUrls\<close>
  above is the one of a render that shows the current state.
\<close>

definition resetUrlsOf :: "nat option \<Rightarrow> nat option \<Rightarrow> controller \<Rightarrow> controller" where
  "resetUrlsOf src res s =
     (let s1 = (case src of Some u \<Rightarrow> revokeObjectURL u s | None \<Rightarrow> s);
          s2 = (case res of Some u \<Rightarrow> revokeObjectURL u s1 | None \<Rightarrow> s1)
      in setResultUrl None (setSourceUrl None s2))"

text \<open>The cleanup function returned at line 89, registered by a render with those two values.\<close>

definition cleanup :: "nat option \<Rightarrow> nat option \<Rightarrow> controller \<Rightarrow> controller" where
  "cleanup src res s = (resetUrlsOf src res s)\<lparr>fileRef := None\<rparr>"

text \<open>
  The mounted component: the controller, and the values of \<open>sourceUrl\<close> and
  \<open>resultUrl\<close> in the last committed render, which are the values the registered
  cleanup will use.
\<close>

record mounted =
  ctl :: controller
  renderedSourceUrl :: "nat option"
  renderedResultUrl :: "nat option"

text \<open>The last committed render shows the current values.\<close>

definition settled :: "mounted \<Rightarrow> bool" where
  "settled m \<longleftrightarrow>
     renderedSourceUrl m = sourceUrl (ctl m) \<and> renderedResultUrl m = resultUrl (ctl m)"

text \<open>
  One render and commit. When \<open>sourceUrl\<close> and \<open>resultUrl\<close> are as in the last render,
  \<open>resetUrls\<close> is the same function and the effect is left alone. Otherwise
  \<open>resetUrls\<close> is a new function, the dependency of line 93 has changed, and React
  runs the cleanup that the last render registered and then registers the cleanup of
  this render. The cleanup calls \<open>setSourceUrl(null)\<close> and \<open>setResultUrl(null)\<close>, which
  schedule a further render.
\<close>

definition commit :: "mounted \<Rightarrow> mounted" where
  "commit m =
     (if sourceUrl (ctl m) = renderedSourceUrl m \<and> resultUrl (ctl m) = renderedResultUrl m
      then m
      else \<lparr> ctl = cleanup (renderedSourceUrl m) (renderedResultUrl m) (ctl m),
             renderedSourceUrl = sourceUrl (ctl m),
             renderedResultUrl = resultUrl (ctl m) \<rparr>)"

text \<open>
  React renders until no update is pending: two commits are enough, a third one changes
  nothing (\<open>commit_settle\<close>).
\<close>

definition settle :: "mounted \<Rightarrow> mounted" where
  "settle m = commit (commit m)"

text \<open>
  The two events of the page: a change of the file input (line 207) and a click on the
  button (line 226), each followed by React's commits. During a conversion the two URLs
  change only in the last piece of \<open>handleConvert\<close> (line 158), so the renders in
  between leave the effect alone.
\<close>

definition onChange :: "File option \<Rightarrow> mounted \<Rightarrow> mounted" where
  "onChange picked m = settle (m\<lparr>ctl := handleFileChange picked (ctl m)\<rparr>)"

definition onClick :: "env \<Rightarrow> mounted \<Rightarrow> mounted" where
  "onClick e m = settle (m\<lparr>ctl := clickConvert e (ctl m)\<rparr>)"

text \<open>The component after its first render.\<close>

definition mount :: mounted where
  "mount = \<lparr> ctl = initial, renderedSourceUrl = None, renderedResultUrl = None \<rparr>"

subsection \<open>Well-formed object URLs\<close>

text \<open>
  Every live object URL and every URL held in a slot was handed out before, so the next
  one is fresh.
\<close>

definition urls_ok :: "controller \<Rightarrow> bool" where
  "urls_ok s \<longleftrightarrow>
     (\<forall>u \<in> dom (urlStore s). u < urlNext s) \<and>
     (\<forall>u \<in> set_option (sourceUrl s). u < urlNext s) \<and>
     (\<forall>u \<in> set_option (resultUrl s). u < urlNext s)"

subsection \<open>Observations on the effects\<close>

text \<open>The calls of the bootstrap of lines 45--58.\<close>

fun bootstrap_call :: "effect \<Rightarrow> bool" where
  "bootstrap_call Import = True"
| "bootstrap_call (NewFFmpeg _) = True"
| "bootstrap_call (OnProgress _) = True"
| "bootstrap_call (Load _) = True"
| "bootstrap_call _ = False"

text \<open>The effects performed between an earlier state and a later one.\<close>

definition since :: "controller \<Rightarrow> controller \<Rightarrow> effect list" where
  "since s s' = drop (length (trace s)) (trace s')"

subsection \<open>Concrete inputs\<close>

definition clip :: File where
  "clip = \<lparr> name = ''clip.MOV'', content = [1, 2, 3] \<rparr>"

text \<open>Every call resolves; the engine reports 1 percent, then 50 percent.\<close>

definition env_ok :: env where
  "env_ok = \<lparr> importRes = None, loadRes = None, fetchRes = None, writeRes = None,
     execProgress = [1 / 100, 1 / 2], execRes = None, readRes = Inr [7, 8], postDelIn = None \<rparr>"

text \<open>As \<open>env_ok\<close>, but \<open>exec\<close> rejects with an \<open>Error\<close>.\<close>

definition env_exec_fails :: env where
  "env_exec_fails = env_ok \<lparr> execRes := Some (ErrorObj ''Aborted()'') \<rparr>"

text \<open>As \<open>env_ok\<close>, but \<open>exec\<close> rejects with an \<open>Error\<close> whose message is empty.\<close>

definition env_exec_fails_empty :: env where
  "env_exec_fails_empty = env_ok \<lparr> execRes := Some (ErrorObj []) \<rparr>"

text \<open>
  The controller as \<open>handleFileChange\<close> returns it for \<open>clip\<close> in the initial state,
  and as \<open>handleConvert\<close> then returns it when every call resolves. Both are states
  at the return of a callback, before React has committed.
\<close>

definition picked :: controller where
  "picked = handleFileChange (Some clip) initial"

definition converted :: controller where
  "converted = handleConvert env_ok picked"

text \<open>
  A mounted component that holds the staged file: the controller as \<open>handleFileChange\<close>
  leaves it, shown by the last render. This is the state a selection is meant to leave;
  the commits that follow a selection do not leave it (\<open>onChange_file\<close>).
\<close>

definition staged :: mounted where
  "staged = \<lparr> ctl = picked, renderedSourceUrl = sourceUrl picked,
              renderedResultUrl = resultUrl picked \<rparr>"

text \<open>
  In the controller \<open>picked\<close> a first conversion has been requested and is suspended at
  the \<open>await import\<close> of line 45.
\<close>

definition booting :: controller where
  "booting = emit Import (setProgress 5 (setStageMessage MsgBooting (setStage LoadingCore picked)))"

text \<open>
  Two overlapping calls of \<open>ensureFFmpeg\<close>. The first call is suspended at line 45
  (\<open>booting\<close>); a second call finds \<open>ffmpegRef\<close> empty and starts a bootstrap of its
  own; the import of the first resolves, then that of the second
  (\<open>both_loading\<close>: both are suspended at line 54, the first holds instance 0, the second
  instance 1). Then the load of the first call resolves (\<open>first_loaded\<close>), and later the
  load of the second (\<open>second_loaded\<close>).
\<close>

definition both_loading :: controller where
  "both_loading = snd (bootstrapImported (snd (bootstrapImported (bootstrapStart booting))))"

definition first_loaded :: controller where
  "first_loaded = bootstrapLoaded 0 both_loading"

definition second_loaded :: controller where
  "second_loaded = bootstrapLoaded 1 first_loaded"

section \<open>Auxiliary facts\<close>

subsection \<open>Unfolding the definitions\<close>

lemmas setter_defs = emit_def setStage_def setProgress_def setStageMessage_def setError_def
  setSourceUrl_def setResultUrl_def setFileName_def createObjectURL_def revokeObjectURL_def

lemmas name_defs = inputName_def sanitized_ext_def pop_def js_or_def strip_non_alnum_def
  toLowerCase_def toLowerCase_char_def alnum_lower_def

lemmas run_defs = handleConvert_def tryBlock_def processing_def ensureFFmpeg_def handleFileChange_def
  resetUrls_def setter_defs Let_def progressHandler_def catchBlock_def errorMessage_def

lemmas concrete_defs = picked_def converted_def booting_def clip_def
  env_ok_def env_exec_fails_def env_exec_fails_empty_def initial_def staged_def mount_def
  both_loading_def first_loaded_def second_loaded_def

subsection \<open>Lists of effects\<close>

lemma progress_values_append: "progress_values (xs @ ys) = progress_values xs @ progress_values ys"
  by (induction xs rule: progress_values.induct) simp_all

lemma stage_values_append: "stage_values (xs @ ys) = stage_values xs @ stage_values ys"
  by (induction xs rule: stage_values.induct) simp_all

lemma progress_values_map: "progress_values (map (\<lambda>p. SetProgress (f p)) ps) = map f ps"
  by (induction ps) simp_all

lemma stage_values_map: "stage_values (map (\<lambda>p. SetProgress (f p)) ps) = []"
  by (induction ps) simp_all

lemma since_append: "trace s' = trace s @ new \<Longrightarrow> since s s' = new"
  by (simp add: since_def)

lemma since_trans:
  "trace s1 = trace s @ since s s1 \<Longrightarrow> trace s2 = trace s1 @ since s1 s2 \<Longrightarrow>
   since s s2 = since s s1 @ since s1 s2"
  by (metis append.assoc since_append)

lemma extends_trans:
  "trace s1 = trace s @ a \<Longrightarrow> trace s2 = trace s1 @ b \<Longrightarrow> trace s2 = trace s @ since s s2"
  by (simp add: since_def)

lemma before_finalize_split:
  "\<forall>v \<in> set pre. v \<le> (97::int) \<Longrightarrow>
   takeWhile (\<lambda>v. v \<noteq> 98) (pre @ 98 # rest) = pre \<and>
   dropWhile (\<lambda>v. v \<noteq> 98) (pre @ 98 # rest) = 98 # rest"
  by (induction pre) auto

lemma before_finalize_none:
  "\<forall>v \<in> set pre. v \<le> (97::int) \<Longrightarrow>
   takeWhile (\<lambda>v. v \<noteq> 98) pre = pre \<and> dropWhile (\<lambda>v. v \<noteq> 98) pre = []"
  by (induction pre) auto

subsection \<open>File names\<close>

lemma inputName_eq: "inputName fname = ''source.'' @ sanitized_ext fname"
  by (simp add: inputName_def js_or_def)

subsection \<open>The progress handler\<close>

lemma computed_bounds: "0 \<le> p \<Longrightarrow> p \<le> 1 \<Longrightarrow> 0 \<le> computed p \<and> computed p \<le> 97"
  by (simp add: computed_def js_round_def)

lemma fold_progressHandler:
  "fold progressHandler ps s =
     s\<lparr>progress := last (progress s # map computed ps),
       stageMessage := last (stageMessage s # map (\<lambda>p. MsgAnalyzing (computed p)) ps),
       trace := trace s @ map (\<lambda>p. SetProgress (computed p)) ps\<rparr>"
  by (induction ps arbitrary: s) (simp_all add: progressHandler_def setter_defs Let_def)

subsection \<open>\<open>ensureFFmpeg\<close>\<close>

lemma ensureFFmpeg_cached: "ffmpegRef s = Some h \<Longrightarrow> ensureFFmpeg e s = (Inr h, s)"
  by (simp add: ensureFFmpeg_def)

lemma ensureFFmpeg_frame:
  "ensureFFmpeg e s = (r, s1) \<Longrightarrow>
     resultUrl s1 = resultUrl s \<and> sourceUrl s1 = sourceUrl s \<and> urlStore s1 = urlStore s \<and>
     urlNext s1 = urlNext s \<and> fileRef s1 = fileRef s \<and> error s1 = error s"
  by (auto simp add: ensureFFmpeg_def setter_defs Let_def split: option.splits)

lemma ensureFFmpeg_Inr:
  "ensureFFmpeg e s = (Inr h, s1) \<Longrightarrow> ffmpegRef s1 = Some h"
  by (auto simp add: ensureFFmpeg_def setter_defs Let_def split: option.splits)

lemma ensureFFmpeg_trace:
  "trace (snd (ensureFFmpeg e s)) = trace s @
     (case ffmpegRef s of Some h \<Rightarrow> [] | None \<Rightarrow>
        [SetStage LoadingCore, SetProgress 5, Import] @
        (case importRes e of Some t \<Rightarrow> [] | None \<Rightarrow>
           [NewFFmpeg (instNext s), OnProgress (instNext s), Load (instNext s)] @
           (case loadRes e of Some t \<Rightarrow> [] | None \<Rightarrow> [SetStage Ready, SetProgress 0])))"
  by (simp add: ensureFFmpeg_def setter_defs Let_def split: option.splits)

lemma ensureFFmpeg_since:
  "since s (snd (ensureFFmpeg e s)) =
     (case ffmpegRef s of Some h \<Rightarrow> [] | None \<Rightarrow>
        [SetStage LoadingCore, SetProgress 5, Import] @
        (case importRes e of Some t \<Rightarrow> [] | None \<Rightarrow>
           [NewFFmpeg (instNext s), OnProgress (instNext s), Load (instNext s)] @
           (case loadRes e of Some t \<Rightarrow> [] | None \<Rightarrow> [SetStage Ready, SetProgress 0])))"
  unfolding since_def ensureFFmpeg_trace by simp

lemma ensureFFmpeg_extends:
  "trace (snd (ensureFFmpeg e s)) = trace s @ since s (snd (ensureFFmpeg e s))"
  unfolding since_def ensureFFmpeg_trace by simp

lemma ensureFFmpeg_throws_iff:
  "(\<exists>t. fst (ensureFFmpeg e s) = Inl t) \<longleftrightarrow>
     ffmpegRef s = None \<and> \<not> (importRes e = None \<and> loadRes e = None)"
  by (auto simp add: ensureFFmpeg_def Let_def split: option.splits)

lemma ensureFFmpeg_progress:
  "progress_values (trace (snd (ensureFFmpeg e s))) = progress_values (trace s) @
     (if ffmpegRef s = None
      then 5 # (if importRes e = None \<and> loadRes e = None then [0] else [])
      else [])"
  by (simp add: ensureFFmpeg_trace progress_values_append split: option.splits)

subsection \<open>The processing part\<close>

lemma processing_trace:
  "trace (snd (processing e f s)) = trace s @
     [SetStage Processing, SetProgress 8, FetchFile] @
     (case fetchRes e of Some t \<Rightarrow> [] | None \<Rightarrow>
        [DeleteFile (inputName (name f)), DeleteFile outputName,
         WriteFile (inputName (name f)) (content f)] @
        (case writeRes e of Some t \<Rightarrow> [] | None \<Rightarrow>
           Exec (execArgs (inputName (name f))) #
           map (\<lambda>p. SetProgress (computed p)) (execProgress e) @
           (case execRes e of Some t \<Rightarrow> [] | None \<Rightarrow>
              [SetProgress 98, ReadFile outputName] @
              (case readRes e of Inl t \<Rightarrow> [] | Inr d \<Rightarrow>
                 DeleteFile (inputName (name f)) #
                 (case postDelIn e of Some t \<Rightarrow> [] | None \<Rightarrow> [DeleteFile outputName]) @
                 [CreateObjectURL (urlNext s), SetStage Complete, SetProgress 100]))))"
  by (simp add: processing_def setter_defs Let_def fold_progressHandler
      split: option.splits sum.splits)

lemma processing_since:
  "since s (snd (processing e f s)) =
     [SetStage Processing, SetProgress 8, FetchFile] @
     (case fetchRes e of Some t \<Rightarrow> [] | None \<Rightarrow>
        [DeleteFile (inputName (name f)), DeleteFile outputName,
         WriteFile (inputName (name f)) (content f)] @
        (case writeRes e of Some t \<Rightarrow> [] | None \<Rightarrow>
           Exec (execArgs (inputName (name f))) #
           map (\<lambda>p. SetProgress (computed p)) (execProgress e) @
           (case execRes e of Some t \<Rightarrow> [] | None \<Rightarrow>
              [SetProgress 98, ReadFile outputName] @
              (case readRes e of Inl t \<Rightarrow> [] | Inr d \<Rightarrow>
                 DeleteFile (inputName (name f)) #
                 (case postDelIn e of Some t \<Rightarrow> [] | None \<Rightarrow> [DeleteFile outputName]) @
                 [CreateObjectURL (urlNext s), SetStage Complete, SetProgress 100]))))"
  unfolding since_def processing_trace by simp

lemma processing_extends:
  "trace (snd (processing e f s)) = trace s @ since s (snd (processing e f s))"
  unfolding since_def processing_trace by simp

lemma processing_frame:
  "ffmpegRef (snd (processing e f s)) = ffmpegRef s \<and> fileRef (snd (processing e f s)) = fileRef s
   \<and> sourceUrl (snd (processing e f s)) = sourceUrl s"
  by (simp add: processing_def setter_defs Let_def fold_progressHandler
      split: option.splits sum.splits)

lemma processing_throws:
  "processing e f s = (Inl t, s1) \<Longrightarrow>
     resultUrl s1 = resultUrl s \<and> urlStore s1 = urlStore s \<and> urlNext s1 = urlNext s"
  by (auto simp add: processing_def setter_defs Let_def fold_progressHandler
      split: option.splits sum.splits)

lemma processing_throws_no_create:
  "processing e f s = (Inl t, s1) \<Longrightarrow> \<forall>u. CreateObjectURL u \<notin> set (since s s1)"
  by (auto simp add: processing_def setter_defs Let_def fold_progressHandler since_def
      split: option.splits sum.splits)

lemma processing_returns:
  "processing e f s = (Inr u, s1) \<Longrightarrow>
     (\<exists>d. readRes e = Inr d \<and> urlStore s1 = (urlStore s)(urlNext s \<mapsto> Blob d ''video/mp4'')) \<and>
     resultUrl s1 = Some (urlNext s) \<and> urlNext s1 = Suc (urlNext s) \<and> stage s1 = Complete \<and> progress s1 = 100
     \<and> fetchRes e = None \<and> writeRes e = None \<and> execRes e = None"
  by (auto simp add: processing_def setter_defs Let_def fold_progressHandler
      split: option.splits sum.splits)

lemma processing_throws_iff:
  "(\<exists>t. fst (processing e f s) = Inl t) \<longleftrightarrow>
     \<not> (fetchRes e = None \<and> writeRes e = None \<and> execRes e = None \<and> \<not> isl (readRes e))"
  by (auto simp add: processing_def Let_def split: option.splits sum.splits prod.splits)

lemma processing_progress:
  "progress_values (trace (snd (processing e f s))) = progress_values (trace s) @
     8 # (if fetchRes e = None \<and> writeRes e = None
          then map computed (execProgress e) @
               (if execRes e = None
                then 98 # (if isl (readRes e) then [] else [100])
                else [])
          else [])"
  by (simp add: processing_trace progress_values_append progress_values_map
      split: option.splits sum.splits)

subsection \<open>The catch block\<close>

lemma catchBlock_fields:
  "stage (catchBlock t s) = Error \<and> error (catchBlock t s) = Some (errorMessage t) \<and>
   resultUrl (catchBlock t s) = resultUrl s \<and> urlStore (catchBlock t s) = urlStore s \<and>
   urlNext (catchBlock t s) = urlNext s \<and> ffmpegRef (catchBlock t s) = ffmpegRef s \<and>
   sourceUrl (catchBlock t s) = sourceUrl s \<and> fileRef (catchBlock t s) = fileRef s \<and>
   trace (catchBlock t s) = trace s @ [SetStage Error]"
  by (simp add: catchBlock_def setter_defs)

lemma catchBlock_since:
  "trace s1 = trace s @ since s s1 \<Longrightarrow> since s (catchBlock t s1) = since s s1 @ [SetStage Error]"
  by (metis append.assoc catchBlock_fields since_append)

subsection \<open>The try block\<close>

lemma tryBlock_unfold:
  "tryBlock e f s =
     (case ensureFFmpeg e s of (Inl t, s1) \<Rightarrow> (Inl t, s1) | (Inr h, s1) \<Rightarrow> processing e f s1)"
  by (simp add: tryBlock_def)

lemma tryBlock_extends:
  "trace (snd (tryBlock e f s)) = trace s @ since s (snd (tryBlock e f s))"
proof -
  obtain r s1 where E: "ensureFFmpeg e s = (r, s1)" by (cases "ensureFFmpeg e s")
  have X: "trace s1 = trace s @ since s s1" using ensureFFmpeg_extends [of e s] E by simp
  show ?thesis
  proof (cases r)
    case (Inl t)
    then show ?thesis using E X by (simp add: tryBlock_unfold)
  next
    case (Inr h)
    have "trace (snd (processing e f s1)) = trace s1 @ since s1 (snd (processing e f s1))"
      by (rule processing_extends)
    then have "trace (snd (processing e f s1)) = trace s @ since s (snd (processing e f s1))"
      by (rule extends_trans [OF X])
    then show ?thesis using E Inr by (simp add: tryBlock_unfold)
  qed
qed

text \<open>Which failure the \<open>try\<close> block throws: that of the first step that rejects.\<close>

lemma tryBlock_result:
  "fst (tryBlock e f s) =
     (case (if ffmpegRef s = None
            then (case importRes e of Some t \<Rightarrow> Some t | None \<Rightarrow> loadRes e)
            else None) of
        Some t \<Rightarrow> Inl t
      | None \<Rightarrow>
          (case fetchRes e of Some t \<Rightarrow> Inl t | None \<Rightarrow>
          (case writeRes e of Some t \<Rightarrow> Inl t | None \<Rightarrow>
          (case execRes e of Some t \<Rightarrow> Inl t | None \<Rightarrow>
          (case readRes e of Inl t \<Rightarrow> Inl t | Inr d \<Rightarrow> Inr ())))))"
proof -
  have P: "\<And>s1. fst (processing e f s1) =
          (case fetchRes e of Some t \<Rightarrow> Inl t | None \<Rightarrow>
          (case writeRes e of Some t \<Rightarrow> Inl t | None \<Rightarrow>
          (case execRes e of Some t \<Rightarrow> Inl t | None \<Rightarrow>
          (case readRes e of Inl t \<Rightarrow> Inl t | Inr d \<Rightarrow> Inr ()))))"
    by (simp add: processing_def Let_def split: option.splits sum.splits prod.splits)
  have E: "fst (ensureFFmpeg e s) =
     (case ffmpegRef s of Some h \<Rightarrow> Inr h | None \<Rightarrow>
        (case importRes e of Some t \<Rightarrow> Inl t | None \<Rightarrow>
          (case loadRes e of Some t \<Rightarrow> Inl t | None \<Rightarrow> Inr (instNext s))))"
    by (simp add: ensureFFmpeg_def setter_defs Let_def split: option.splits)
  show ?thesis
    using E P [of "snd (ensureFFmpeg e s)"]
    by (cases "ensureFFmpeg e s") (auto simp add: tryBlock_unfold split: option.splits sum.splits)
qed

lemma tryBlock_throws:
  assumes "tryBlock e f s = (Inl t, s1)"
  shows "resultUrl s1 = resultUrl s \<and> urlStore s1 = urlStore s \<and> urlNext s1 = urlNext s \<and>
         (\<forall>u. CreateObjectURL u \<notin> set (since s s1))"
proof -
  obtain r s0 where E: "ensureFFmpeg e s = (r, s0)" by (cases "ensureFFmpeg e s")
  have F: "resultUrl s0 = resultUrl s \<and> urlStore s0 = urlStore s \<and> urlNext s0 = urlNext s"
    using ensureFFmpeg_frame [OF E] by simp
  have X: "trace s0 = trace s @ since s s0" using ensureFFmpeg_extends [of e s] E by simp
  have B: "\<forall>u. CreateObjectURL u \<notin> set (since s s0)"
    using ensureFFmpeg_since [of s e] E by (auto split: option.splits)
  show ?thesis
  proof (cases r)
    case (Inl t0)
    then have "s1 = s0" using assms E by (simp add: tryBlock_unfold)
    then show ?thesis using F B by simp
  next
    case (Inr h)
    then have P: "processing e f s0 = (Inl t, s1)" using assms E by (simp add: tryBlock_unfold)
    have Y: "trace s1 = trace s0 @ since s0 s1" using processing_extends [of e f s0] P by simp
    have "\<forall>u. CreateObjectURL u \<notin> set (since s0 s1)"
      using P by (rule processing_throws_no_create)
    then have "\<forall>u. CreateObjectURL u \<notin> set (since s s1)"
      using B since_trans [OF X Y] by simp
    then show ?thesis using processing_throws [OF P] F by simp
  qed
qed

lemma tryBlock_returns:
  assumes "tryBlock e f s = (Inr u, s1)"
  shows "stage s1 = Complete \<and> progress s1 = 100 \<and>
         (\<exists>d. readRes e = Inr d \<and> urlStore s1 = (urlStore s)(urlNext s \<mapsto> Blob d ''video/mp4'')) \<and>
         resultUrl s1 = Some (urlNext s) \<and>
         Exec (execArgs (inputName (name f))) \<in> set (since s s1) \<and>
         ReadFile outputName \<in> set (since s s1)"
proof -
  obtain r s0 where E: "ensureFFmpeg e s = (r, s0)" by (cases "ensureFFmpeg e s")
  have F: "urlStore s0 = urlStore s \<and> urlNext s0 = urlNext s"
    using ensureFFmpeg_frame [OF E] by simp
  have X: "trace s0 = trace s @ since s s0" using ensureFFmpeg_extends [of e s] E by simp
  obtain h where R: "r = Inr h" using assms E by (cases r) (simp_all add: tryBlock_unfold)
  then have P: "processing e f s0 = (Inr u, s1)" using assms E by (simp add: tryBlock_unfold)
  have Y: "trace s1 = trace s0 @ since s0 s1" using processing_extends [of e f s0] P by simp
  have Q: "(\<exists>d. readRes e = Inr d \<and> urlStore s1 = (urlStore s0)(urlNext s0 \<mapsto> Blob d ''video/mp4'')) \<and>
     resultUrl s1 = Some (urlNext s0) \<and> urlNext s1 = Suc (urlNext s0) \<and> stage s1 = Complete \<and> progress s1 = 100
     \<and> fetchRes e = None \<and> writeRes e = None \<and> execRes e = None"
    using P by (rule processing_returns)
  have "Exec (execArgs (inputName (name f))) \<in> set (since s0 (snd (processing e f s0))) \<and>
        ReadFile outputName \<in> set (since s0 (snd (processing e f s0)))"
    unfolding processing_since using Q by auto
  then have "Exec (execArgs (inputName (name f))) \<in> set (since s0 s1) \<and>
        ReadFile outputName \<in> set (since s0 s1)"
    using P by simp
  then have "Exec (execArgs (inputName (name f))) \<in> set (since s s1) \<and>
        ReadFile outputName \<in> set (since s s1)"
    using since_trans [OF X Y] by simp
  then show ?thesis using Q F by simp
qed

lemma tryBlock_sourceUrl: "sourceUrl (snd (tryBlock e f s)) = sourceUrl s"
proof -
  obtain r s0 where E: "ensureFFmpeg e s = (r, s0)" by (cases "ensureFFmpeg e s")
  have "sourceUrl s0 = sourceUrl s" using ensureFFmpeg_frame [OF E] by simp
  moreover have "sourceUrl (snd (processing e f s0)) = sourceUrl s0"
    using processing_frame [of e f s0] by simp
  ultimately show ?thesis using E by (cases r) (simp_all add: tryBlock_unfold)
qed

lemma tryBlock_urlNext:
  assumes "tryBlock e f s = (Inr u, s1)"
  shows "urlNext s1 = Suc (urlNext s)"
proof -
  obtain r s0 where E: "ensureFFmpeg e s = (r, s0)" by (cases "ensureFFmpeg e s")
  have F: "urlNext s0 = urlNext s" using ensureFFmpeg_frame [OF E] by simp
  obtain h where R: "r = Inr h" using assms E by (cases r) (simp_all add: tryBlock_unfold)
  then have P: "processing e f s0 = (Inr u, s1)" using assms E by (simp add: tryBlock_unfold)
  show ?thesis using processing_returns [OF P] F by simp
qed

subsection \<open>\<open>handleConvert\<close>\<close>

lemma handleConvert_unfold:
  "fileRef s = Some f \<Longrightarrow>
   handleConvert e s =
     (case ensureFFmpeg e s of
        (Inl t, s1) \<Rightarrow> catchBlock t s1
      | (Inr h, s1) \<Rightarrow>
          (case processing e f s1 of
             (Inl t, s2) \<Rightarrow> catchBlock t s2
           | (Inr u, s2) \<Rightarrow> s2))"
  by (simp add: handleConvert_def tryBlock_def split: prod.splits sum.splits)

lemma handleConvert_extends:
  assumes "fileRef s = Some f"
  shows "trace (handleConvert e s) = trace s @ since s (handleConvert e s)"
proof -
  obtain r s1 where E: "ensureFFmpeg e s = (r, s1)" by (cases "ensureFFmpeg e s")
  obtain r2 s2 where P: "processing e f s1 = (r2, s2)" by (cases "processing e f s1")
  have T1: "\<exists>b. trace s1 = trace s @ b"
    using ensureFFmpeg_trace [of e s] E by simp
  have T2: "\<exists>p. trace s2 = trace s1 @ p"
    using processing_trace [of e f s1] P by simp
  have "\<exists>n. trace (handleConvert e s) = trace s @ n"
    using assms E P T1 T2
    by (auto simp add: handleConvert_unfold catchBlock_fields split: sum.splits)
  then show ?thesis by (auto simp add: since_def)
qed

lemma handleConvert_trace_progress:
  assumes "fileRef s = Some f"
  shows "progress_values (trace (handleConvert e s)) = progress_values (trace s) @
     (if ffmpegRef s = None \<and> \<not> (importRes e = None \<and> loadRes e = None) then [5]
      else (if ffmpegRef s = None then [5, 0] else []) @
           8 # (if fetchRes e = None \<and> writeRes e = None
                then map computed (execProgress e) @
                     (if execRes e = None
                      then 98 # (if isl (readRes e) then [] else [100])
                      else [])
                else []))"
proof -
  obtain r s1 where E: "ensureFFmpeg e s = (r, s1)" by (cases "ensureFFmpeg e s")
  obtain r2 s2 where P: "processing e f s1 = (r2, s2)" by (cases "processing e f s1")
  have T1: "progress_values (trace s1) = progress_values (trace s) @
     (if ffmpegRef s = None
      then 5 # (if importRes e = None \<and> loadRes e = None then [0] else [])
      else [])"
    using ensureFFmpeg_progress [of e s] E by simp
  have T2: "progress_values (trace s2) = progress_values (trace s1) @
     8 # (if fetchRes e = None \<and> writeRes e = None
          then map computed (execProgress e) @
               (if execRes e = None
                then 98 # (if isl (readRes e) then [] else [100])
                else [])
          else [])"
    using processing_progress [of e f s1] P by simp
  have R: "(\<exists>t. r = Inl t) \<longleftrightarrow> ffmpegRef s = None \<and> \<not> (importRes e = None \<and> loadRes e = None)"
    using ensureFFmpeg_throws_iff [of e s] E by simp
  show ?thesis
  proof (cases r)
    case (Inl t)
    then have "handleConvert e s = catchBlock t s1"
      using assms E by (simp add: handleConvert_unfold)
    then show ?thesis using T1 R Inl
      by (simp add: catchBlock_fields progress_values_append)
  next
    case (Inr h)
    then have "trace (handleConvert e s) = trace s2 \<or> trace (handleConvert e s) = trace s2 @ [SetStage Error]"
      using assms E P by (simp add: handleConvert_unfold catchBlock_fields split: sum.splits)
    then have "progress_values (trace (handleConvert e s)) = progress_values (trace s2)"
      by (auto simp add: progress_values_append)
    then show ?thesis using T1 T2 R Inr by auto
  qed
qed

lemma handleConvert_progress:
  assumes "fileRef s = Some f"
  shows "progress_values (since s (handleConvert e s)) =
     (if ffmpegRef s = None \<and> \<not> (importRes e = None \<and> loadRes e = None) then [5]
      else (if ffmpegRef s = None then [5, 0] else []) @
           8 # (if fetchRes e = None \<and> writeRes e = None
                then map computed (execProgress e) @
                     (if execRes e = None
                      then 98 # (if isl (readRes e) then [] else [100])
                      else [])
                else []))"
proof -
  have "progress_values (trace s) @ progress_values (since s (handleConvert e s)) =
        progress_values (trace (handleConvert e s))"
    using handleConvert_extends [OF assms, of e] by (metis progress_values_append)
  then show ?thesis
    unfolding handleConvert_trace_progress [OF assms] by simp
qed

lemma handleConvert_stage:
  assumes "fileRef s = Some f"
  shows "stage (handleConvert e s) =
     (if (ffmpegRef s = None \<longrightarrow> importRes e = None \<and> loadRes e = None) \<and>
         fetchRes e = None \<and> writeRes e = None \<and> execRes e = None \<and> \<not> isl (readRes e)
      then Complete else Error)"
proof -
  obtain r s1 where E: "ensureFFmpeg e s = (r, s1)" by (cases "ensureFFmpeg e s")
  obtain r2 s2 where P: "processing e f s1 = (r2, s2)" by (cases "processing e f s1")
  have R: "(\<exists>t. r = Inl t) \<longleftrightarrow> ffmpegRef s = None \<and> \<not> (importRes e = None \<and> loadRes e = None)"
    using ensureFFmpeg_throws_iff [of e s] E by simp
  have R2: "(\<exists>t. r2 = Inl t) \<longleftrightarrow>
     \<not> (fetchRes e = None \<and> writeRes e = None \<and> execRes e = None \<and> \<not> isl (readRes e))"
    using processing_throws_iff [of e f s1] P by simp
  have C: "\<forall>u. r2 = Inr u \<longrightarrow> stage s2 = Complete"
    using processing_returns P by blast
  show ?thesis
  proof (cases r)
    case (Inl t)
    then show ?thesis using assms E R
      by (auto simp add: handleConvert_unfold catchBlock_fields)
  next
    case (Inr h)
    show ?thesis
    proof (cases r2)
      case (Inl t2)
      then show ?thesis using assms E P R R2 Inr
        by (auto simp add: handleConvert_unfold catchBlock_fields)
    next
      case (Inr u)
      then have "stage (handleConvert e s) = Complete"
        using assms E P C \<open>r = Inr h\<close> by (simp add: handleConvert_unfold)
      moreover have "\<not> (\<exists>t. r = Inl t)" using \<open>r = Inr h\<close> by simp
      moreover have "\<not> (\<exists>t. r2 = Inl t)" using Inr by simp
      ultimately show ?thesis using R R2 by auto
    qed
  qed
qed

text \<open>With the engine cached, a conversion is the processing part followed, on a throw, by the catch block.\<close>

lemma handleConvert_cached:
  assumes "ffmpegRef s = Some h" and "fileRef s = Some f"
  shows "handleConvert e s =
     (case processing e f s of (Inl t, s2) \<Rightarrow> catchBlock t s2 | (Inr u, s2) \<Rightarrow> s2)"
  using assms by (simp add: handleConvert_unfold ensureFFmpeg_cached)

lemma handleConvert_cached_since:
  assumes "ffmpegRef s = Some h" and "fileRef s = Some f"
  shows "since s (handleConvert e s) =
     since s (snd (processing e f s)) @
     (if isl (fst (processing e f s)) then [SetStage Error] else [])"
proof -
  obtain r2 s2 where P: "processing e f s = (r2, s2)" by (cases "processing e f s")
  have X: "trace s2 = trace s @ since s s2" using processing_extends [of e f s] P by simp
  show ?thesis
  proof (cases r2)
    case (Inl t)
    then have "handleConvert e s = catchBlock t s2"
      using handleConvert_cached [OF assms, of e] P by simp
    then show ?thesis using catchBlock_since [OF X] P Inl by simp
  next
    case (Inr u)
    then have "handleConvert e s = s2"
      using handleConvert_cached [OF assms, of e] P by simp
    then show ?thesis using P Inr by simp
  qed
qed

lemma handleConvert_cached_stages:
  assumes "ffmpegRef s = Some h" and "fileRef s = Some f"
  shows "stage_values (since s (handleConvert e s)) =
           [Processing, if isl (fst (processing e f s)) then Error else Complete]"
    and "filter bootstrap_call (since s (handleConvert e s)) = []"
proof -
  have I: "isl (fst (processing e f s)) \<longleftrightarrow>
     \<not> (fetchRes e = None \<and> writeRes e = None \<and> execRes e = None \<and> \<not> isl (readRes e))"
    using processing_throws_iff [of e f s] by (cases "fst (processing e f s)") auto
  show "stage_values (since s (handleConvert e s)) =
           [Processing, if isl (fst (processing e f s)) then Error else Complete]"
    unfolding handleConvert_cached_since [OF assms] processing_since I
    by (simp add: stage_values_append stage_values_map split: option.splits sum.splits)
  show "filter bootstrap_call (since s (handleConvert e s)) = []"
    unfolding handleConvert_cached_since [OF assms] processing_since
    by (simp split: option.splits sum.splits)
qed

lemma handleConvert_keeps_engine:
  assumes "fileRef s = Some f" and "ensureFFmpeg e s = (Inr h, s1)"
  shows "ffmpegRef (handleConvert e s) = ffmpegRef s1"
proof -
  obtain r2 s2 where P: "processing e f s1 = (r2, s2)" by (cases "processing e f s1")
  have "ffmpegRef s2 = ffmpegRef s1" using processing_frame [of e f s1] P by simp
  then show ?thesis
    using assms P by (cases r2) (simp_all add: handleConvert_unfold catchBlock_fields)
qed

lemma handleFileChange_ffmpegRef: "ffmpegRef (handleFileChange p s) = ffmpegRef s"
  by (simp add: handleFileChange_def resetUrls_def setter_defs Let_def
      split: option.splits prod.splits)

lemma handleConvert_ffmpegRef:
  assumes "ffmpegRef s = Some h"
  shows "ffmpegRef (handleConvert e s) = Some h"
proof (cases "fileRef s")
  case None
  then show ?thesis using assms by (simp add: handleConvert_def setError_def)
next
  case (Some f)
  obtain r2 s2 where P: "processing e f s = (r2, s2)" by (cases "processing e f s")
  have "ffmpegRef s2 = Some h" using processing_frame [of e f s] P assms by simp
  then show ?thesis
    using handleConvert_cached [OF assms Some, of e] P
    by (cases r2) (simp_all add: catchBlock_fields)
qed

subsection \<open>Object URLs\<close>

lemma urls_ok_initial: "urls_ok initial"
  by (simp add: urls_ok_def initial_def)

lemma resetUrls_fields:
  "urlStore (resetUrls s) =
     (\<lambda>u. if Some u = sourceUrl s \<or> Some u = resultUrl s then None else urlStore s u) \<and>
   urlNext (resetUrls s) = urlNext s \<and> sourceUrl (resetUrls s) = None \<and>
   resultUrl (resetUrls s) = None \<and> stage (resetUrls s) = stage s \<and>
   fileRef (resetUrls s) = fileRef s \<and>
   trace (resetUrls s) = trace s @
     (case sourceUrl s of None \<Rightarrow> [] | Some u \<Rightarrow> [RevokeObjectURL u]) @
     (case resultUrl s of None \<Rightarrow> [] | Some u \<Rightarrow> [RevokeObjectURL u])"
  by (auto simp add: resetUrls_def setter_defs Let_def fun_eq_iff split: option.splits)

lemma handleFileChange_fields:
  "stage (handleFileChange (Some f) s) = Ready \<and>
   progress (handleFileChange (Some f) s) = 0 \<and>
   error (handleFileChange (Some f) s) = None \<and>
   fileRef (handleFileChange (Some f) s) = Some f \<and>
   fileName (handleFileChange (Some f) s) = Some (name f) \<and>
   sourceUrl (handleFileChange (Some f) s) = Some (urlNext s) \<and>
   resultUrl (handleFileChange (Some f) s) = None \<and>
   urlNext (handleFileChange (Some f) s) = Suc (urlNext s) \<and>
   urlStore (handleFileChange (Some f) s) =
     (\<lambda>u. if u = urlNext s then Some (FileBlob f)
          else if Some u = sourceUrl s \<or> Some u = resultUrl s then None
          else urlStore s u) \<and>
   trace (handleFileChange (Some f) s) = trace s @
     (case sourceUrl s of None \<Rightarrow> [] | Some u \<Rightarrow> [RevokeObjectURL u]) @
     (case resultUrl s of None \<Rightarrow> [] | Some u \<Rightarrow> [RevokeObjectURL u]) @
     [CreateObjectURL (urlNext s), SetStage Ready, SetProgress 0]"
  by (auto simp add: handleFileChange_def setter_defs Let_def resetUrls_fields fun_eq_iff)

lemma urls_ok_handleFileChange:
  assumes "urls_ok s"
  shows "urls_ok (handleFileChange p s)"
proof (cases p)
  case None
  then show ?thesis using assms by (simp add: handleFileChange_def)
next
  case (Some f)
  show ?thesis
    unfolding Some urls_ok_def using assms
    by (auto simp add: handleFileChange_fields urls_ok_def dom_def less_Suc_eq split: if_splits)
qed

lemma urls_ok_handleConvert:
  assumes "urls_ok s"
  shows "urls_ok (handleConvert e s)"
proof (cases "fileRef s")
  case None
  then show ?thesis using assms by (simp add: handleConvert_def setError_def urls_ok_def)
next
  case (Some f)
  obtain r s1 where T: "tryBlock e f s = (r, s1)" by (cases "tryBlock e f s")
  have S: "sourceUrl s1 = sourceUrl s" using tryBlock_sourceUrl [of e f s] T by simp
  show ?thesis
  proof (cases r)
    case (Inl t)
    then have H: "handleConvert e s = catchBlock t s1" using Some T by (simp add: handleConvert_def)
    have "resultUrl s1 = resultUrl s \<and> urlStore s1 = urlStore s \<and> urlNext s1 = urlNext s"
      using tryBlock_throws [of e f s t s1] T Inl by simp
    then show ?thesis unfolding H using assms S by (simp add: urls_ok_def catchBlock_fields)
  next
    case (Inr u)
    then have H: "handleConvert e s = s1" using Some T by (simp add: handleConvert_def)
    have R: "(\<exists>d. urlStore s1 = (urlStore s)(urlNext s \<mapsto> Blob d ''video/mp4'')) \<and>
             resultUrl s1 = Some (urlNext s)"
      using tryBlock_returns [of e f s u s1] T Inr by auto
    have N: "urlNext s1 = Suc (urlNext s)" using tryBlock_urlNext [of e f s u s1] T Inr by simp
    show ?thesis unfolding H using assms S R N
      by (auto simp add: urls_ok_def dom_def less_Suc_eq split: if_splits)
  qed
qed

subsection \<open>The pieces of a bootstrap\<close>

lemma booting_eq: "booting = bootstrapStart picked"
  by (simp add: booting_def bootstrapStart_def)

text \<open>A call that is not overlapped is the three pieces in a row.\<close>

lemma ensureFFmpeg_phases:
  assumes "ffmpegRef s = None" and "importRes e = None" and "loadRes e = None"
  shows "ensureFFmpeg e s =
     (Inr (fst (bootstrapImported (bootstrapStart s))),
      bootstrapLoaded (fst (bootstrapImported (bootstrapStart s)))
        (snd (bootstrapImported (bootstrapStart s))))"
  using assms
  by (simp add: ensureFFmpeg_def bootstrapStart_def bootstrapImported_def bootstrapLoaded_def
      setter_defs Let_def)

lemma bootstrap_ffmpegRef:
  "ffmpegRef (bootstrapStart s) = ffmpegRef s \<and>
   ffmpegRef (snd (bootstrapImported s)) = ffmpegRef s \<and>
   ffmpegRef (bootstrapLoaded i s) = Some i \<and>
   ffmpegRef (progressHandler q s) = ffmpegRef s"
  by (simp add: bootstrapStart_def bootstrapImported_def bootstrapLoaded_def progressHandler_def
      setter_defs Let_def)

subsection \<open>React's commits\<close>

lemma resetUrls_eq: "resetUrls s = resetUrlsOf (sourceUrl s) (resultUrl s) s"
  by (simp add: resetUrls_def resetUrlsOf_def)

lemma cleanup_fields:
  "stage (cleanup a b s) = stage s \<and> progress (cleanup a b s) = progress s \<and>
   ffmpegRef (cleanup a b s) = ffmpegRef s \<and> urlNext (cleanup a b s) = urlNext s \<and>
   sourceUrl (cleanup a b s) = None \<and> resultUrl (cleanup a b s) = None \<and>
   fileRef (cleanup a b s) = None \<and>
   urlStore (cleanup a b s) =
     (\<lambda>u. if Some u = a \<or> Some u = b then None else urlStore s u) \<and>
   trace (cleanup a b s) = trace s @
     (case a of None \<Rightarrow> [] | Some u \<Rightarrow> [RevokeObjectURL u]) @
     (case b of None \<Rightarrow> [] | Some u \<Rightarrow> [RevokeObjectURL u])"
  by (auto simp add: cleanup_def resetUrlsOf_def setter_defs Let_def fun_eq_iff split: option.splits)

lemma settled_settle: "settled (settle m)"
  by (auto simp add: settle_def commit_def settled_def cleanup_fields)

lemma commit_settled: "settled m \<Longrightarrow> commit m = m"
  by (simp add: commit_def settled_def)

lemma commit_settle: "commit (settle m) = settle m"
  by (rule commit_settled [OF settled_settle])

lemma commit_changed:
  "sourceUrl (ctl m) \<noteq> renderedSourceUrl m \<or> resultUrl (ctl m) \<noteq> renderedResultUrl m \<Longrightarrow>
   commit m = \<lparr> ctl = cleanup (renderedSourceUrl m) (renderedResultUrl m) (ctl m),
                renderedSourceUrl = sourceUrl (ctl m),
                renderedResultUrl = resultUrl (ctl m) \<rparr>"
  by (auto simp add: commit_def)

text \<open>
  What the commits do after a callback has put a fresh URL into one of the slots: the
  cleanup of the last render empties the slots and clears \<open>fileRef\<close>, and the cleanup of
  the render that showed the fresh URL revokes it.
\<close>

lemma settle_fresh:
  assumes "sourceUrl s = Some u \<or> resultUrl s = Some u"
    and "a \<noteq> Some u" and "b \<noteq> Some u"
  shows "settle \<lparr>ctl = s, renderedSourceUrl = a, renderedResultUrl = b\<rparr> =
           \<lparr> ctl = cleanup (sourceUrl s) (resultUrl s) (cleanup a b s),
             renderedSourceUrl = None, renderedResultUrl = None \<rparr>"
proof -
  let ?m0 = "\<lparr>ctl = s, renderedSourceUrl = a, renderedResultUrl = b\<rparr>"
  let ?m1 = "\<lparr>ctl = cleanup a b s, renderedSourceUrl = sourceUrl s,
              renderedResultUrl = resultUrl s\<rparr>"
  have "sourceUrl (ctl ?m0) \<noteq> renderedSourceUrl ?m0 \<or> resultUrl (ctl ?m0) \<noteq> renderedResultUrl ?m0"
    using assms by auto
  then have c1: "commit ?m0 = ?m1"
    by (simp add: commit_changed)
  have "sourceUrl (ctl ?m1) \<noteq> renderedSourceUrl ?m1 \<or> resultUrl (ctl ?m1) \<noteq> renderedResultUrl ?m1"
    using assms(1) by (auto simp add: cleanup_fields)
  then have c2: "commit ?m1 =
      \<lparr> ctl = cleanup (sourceUrl s) (resultUrl s) (cleanup a b s),
        renderedSourceUrl = None, renderedResultUrl = None \<rparr>"
    by (simp add: commit_changed cleanup_fields)
  show ?thesis unfolding settle_def c1 c2 ..
qed

lemma settle_fresh_fields:
  assumes "sourceUrl s = Some u \<or> resultUrl s = Some u"
    and "a \<noteq> Some u" and "b \<noteq> Some u"
  shows "stage (ctl (settle \<lparr>ctl = s, renderedSourceUrl = a, renderedResultUrl = b\<rparr>)) = stage s \<and>
         progress (ctl (settle \<lparr>ctl = s, renderedSourceUrl = a, renderedResultUrl = b\<rparr>)) = progress s \<and>
         sourceUrl (ctl (settle \<lparr>ctl = s, renderedSourceUrl = a, renderedResultUrl = b\<rparr>)) = None \<and>
         resultUrl (ctl (settle \<lparr>ctl = s, renderedSourceUrl = a, renderedResultUrl = b\<rparr>)) = None \<and>
         fileRef (ctl (settle \<lparr>ctl = s, renderedSourceUrl = a, renderedResultUrl = b\<rparr>)) = None \<and>
         urlStore (ctl (settle \<lparr>ctl = s, renderedSourceUrl = a, renderedResultUrl = b\<rparr>)) u = None \<and>
         trace (ctl (settle \<lparr>ctl = s, renderedSourceUrl = a, renderedResultUrl = b\<rparr>)) =
           trace s @
           (case a of None \<Rightarrow> [] | Some v \<Rightarrow> [RevokeObjectURL v]) @
           (case b of None \<Rightarrow> [] | Some v \<Rightarrow> [RevokeObjectURL v]) @
           (case sourceUrl s of None \<Rightarrow> [] | Some v \<Rightarrow> [RevokeObjectURL v]) @
           (case resultUrl s of None \<Rightarrow> [] | Some v \<Rightarrow> [RevokeObjectURL v])"
  unfolding settle_fresh [OF assms]
  using assms(1) by (auto simp add: cleanup_fields)

lemma mounted_ctl_update:
  "m\<lparr>ctl := s\<rparr> = \<lparr>ctl = s, renderedSourceUrl = renderedSourceUrl m,
                     renderedResultUrl = renderedResultUrl m\<rparr>"
  by (cases m) simp

subsection \<open>The events of the mounted component\<close>

lemma urls_ok_fresh:
  assumes "urls_ok s"
  shows "sourceUrl s \<noteq> Some (urlNext s) \<and> resultUrl s \<noteq> Some (urlNext s)"
  using assms by (auto simp add: urls_ok_def)



lemma tryBlock_caught:
  assumes "fileRef s = Some f" and "tryBlock e f s = (Inl t, s1)"
  shows "handleConvert e s = catchBlock t s1 \<and>
         stage (handleConvert e s) = Error \<and>
         error (handleConvert e s) =
           Some (case t of ErrorObj message \<Rightarrow> message
                 | NonError \<Rightarrow> ''Unexpected error while converting video.'') \<and>
         resultUrl (handleConvert e s) = resultUrl s \<and>
         urlStore (handleConvert e s) = urlStore s \<and>
         urlNext (handleConvert e s) = urlNext s \<and>
         (\<forall>u. CreateObjectURL u \<notin> set (since s (handleConvert e s)))"
proof -
  have H: "handleConvert e s = catchBlock t s1"
    using assms by (simp add: handleConvert_def)
  have X: "trace s1 = trace s @ since s s1" using tryBlock_extends [of e f s] assms(2) by simp
  have T: "resultUrl s1 = resultUrl s \<and> urlStore s1 = urlStore s \<and> urlNext s1 = urlNext s \<and>
         (\<forall>u. CreateObjectURL u \<notin> set (since s s1))"
    using assms(2) by (rule tryBlock_throws)
  have "since s (catchBlock t s1) = since s s1 @ [SetStage Error]"
    by (rule catchBlock_since [OF X])
  then have N: "\<forall>u. CreateObjectURL u \<notin> set (since s (catchBlock t s1))"
    using T by simp
  have C: "stage (catchBlock t s1) = Error \<and>
      error (catchBlock t s1) =
           Some (case t of ErrorObj message \<Rightarrow> message
                 | NonError \<Rightarrow> ''Unexpected error while converting video.'') \<and>
      resultUrl (catchBlock t s1) = resultUrl s \<and>
      urlStore (catchBlock t s1) = urlStore s \<and>
      urlNext (catchBlock t s1) = urlNext s"
    using T by (simp add: catchBlock_fields errorMessage_def)
  show ?thesis using H N C by simp
qed

lemma onChange_file:
  assumes "settled m" and "urls_ok (ctl m)"
  shows "stage (ctl (onChange (Some f) m)) = Ready \<and>
         progress (ctl (onChange (Some f) m)) = 0 \<and>
         since (ctl m) (ctl (onChange (Some f) m)) =
           (case sourceUrl (ctl m) of None \<Rightarrow> [] | Some v \<Rightarrow> [RevokeObjectURL v]) @
           (case resultUrl (ctl m) of None \<Rightarrow> [] | Some v \<Rightarrow> [RevokeObjectURL v]) @
           [CreateObjectURL (urlNext (ctl m)), SetStage Ready, SetProgress 0] @
           (case sourceUrl (ctl m) of None \<Rightarrow> [] | Some v \<Rightarrow> [RevokeObjectURL v]) @
           (case resultUrl (ctl m) of None \<Rightarrow> [] | Some v \<Rightarrow> [RevokeObjectURL v]) @
           [RevokeObjectURL (urlNext (ctl m))] \<and>
         urlStore (ctl (onChange (Some f) m)) (urlNext (ctl m)) = None \<and>
         sourceUrl (ctl (onChange (Some f) m)) = None \<and>
         resultUrl (ctl (onChange (Some f) m)) = None \<and>
         fileRef (ctl (onChange (Some f) m)) = None"
proof -
  let ?s = "ctl m"
  let ?u = "urlNext ?s"
  let ?s1 = "handleFileChange (Some f) ?s"
  have fr: "renderedSourceUrl m \<noteq> Some ?u \<and> renderedResultUrl m \<noteq> Some ?u"
    using urls_ok_fresh [OF assms(2)] assms(1) by (simp add: settled_def)
  have rs: "renderedSourceUrl m = sourceUrl ?s \<and> renderedResultUrl m = resultUrl ?s"
    using assms(1) by (simp add: settled_def)
  have O: "onChange (Some f) m = settle \<lparr>ctl = ?s1, renderedSourceUrl = renderedSourceUrl m,
                                  renderedResultUrl = renderedResultUrl m\<rparr>"
    by (simp add: onChange_def mounted_ctl_update)
  have A: "sourceUrl ?s1 = Some ?u \<or> resultUrl ?s1 = Some ?u"
    by (simp add: handleFileChange_fields)
  note fields = settle_fresh_fields [OF A fr [THEN conjunct1] fr [THEN conjunct2]]
  have tr: "trace (ctl (onChange (Some f) m)) = trace ?s @
           (case sourceUrl ?s of None \<Rightarrow> [] | Some v \<Rightarrow> [RevokeObjectURL v]) @
           (case resultUrl ?s of None \<Rightarrow> [] | Some v \<Rightarrow> [RevokeObjectURL v]) @
           [CreateObjectURL ?u, SetStage Ready, SetProgress 0] @
           (case sourceUrl ?s of None \<Rightarrow> [] | Some v \<Rightarrow> [RevokeObjectURL v]) @
           (case resultUrl ?s of None \<Rightarrow> [] | Some v \<Rightarrow> [RevokeObjectURL v]) @
           [RevokeObjectURL ?u]"
    using fields fr rs by (simp add: O handleFileChange_fields)
  have si: "since ?s (ctl (onChange (Some f) m)) =
           (case sourceUrl ?s of None \<Rightarrow> [] | Some v \<Rightarrow> [RevokeObjectURL v]) @
           (case resultUrl ?s of None \<Rightarrow> [] | Some v \<Rightarrow> [RevokeObjectURL v]) @
           [CreateObjectURL ?u, SetStage Ready, SetProgress 0] @
           (case sourceUrl ?s of None \<Rightarrow> [] | Some v \<Rightarrow> [RevokeObjectURL v]) @
           (case resultUrl ?s of None \<Rightarrow> [] | Some v \<Rightarrow> [RevokeObjectURL v]) @
           [RevokeObjectURL ?u]"
    unfolding since_def tr by simp
  have fl: "stage (ctl (onChange (Some f) m)) = Ready \<and>
         progress (ctl (onChange (Some f) m)) = 0 \<and>
         urlStore (ctl (onChange (Some f) m)) ?u = None \<and>
         sourceUrl (ctl (onChange (Some f) m)) = None \<and>
         resultUrl (ctl (onChange (Some f) m)) = None \<and>
         fileRef (ctl (onChange (Some f) m)) = None"
    using fields by (simp add: O handleFileChange_fields)
  show ?thesis using si fl by simp
qed

lemma urls_ok_cleanup: "urls_ok s \<Longrightarrow> urls_ok (cleanup a b s)"
  by (auto simp add: urls_ok_def cleanup_fields dom_def split: if_splits)

lemma urls_ok_commit: "urls_ok (ctl m) \<Longrightarrow> urls_ok (ctl (commit m))"
  by (simp add: commit_def urls_ok_cleanup)

lemma urls_ok_settle: "urls_ok (ctl m) \<Longrightarrow> urls_ok (ctl (settle m))"
  by (simp add: settle_def urls_ok_commit)

lemma urls_ok_clickConvert: "urls_ok s \<Longrightarrow> urls_ok (clickConvert e s)"
  by (simp add: clickConvert_def urls_ok_handleConvert)

text \<open>
  The component after its first render is settled and well-formed, and both events keep
  it so: the hypotheses of the two theorems on the events hold in every state the
  events lead to.
\<close>

lemma mount_ok: "settled mount \<and> urls_ok (ctl mount)"
  by (simp add: settled_def urls_ok_def mount_def initial_def)

lemma onChange_ok:
  "urls_ok (ctl m) \<Longrightarrow> settled (onChange p m) \<and> urls_ok (ctl (onChange p m))"
  by (simp add: onChange_def settled_settle urls_ok_settle urls_ok_handleFileChange)

lemma onClick_ok:
  "urls_ok (ctl m) \<Longrightarrow> settled (onClick e m) \<and> urls_ok (ctl (onClick e m))"
  by (simp add: onClick_def settled_settle urls_ok_settle urls_ok_clickConvert)

text \<open>
  A settled component without a staged file never gets one: a selection is undone by the
  commits that follow it, and a click without a file changes no URL.
\<close>

lemma no_file_kept:
  assumes "settled m" and "urls_ok (ctl m)" and "fileRef (ctl m) = None"
  shows "fileRef (ctl (onChange p m)) = None" and "fileRef (ctl (onClick e m)) = None"
proof -
  show "fileRef (ctl (onChange p m)) = None"
  proof (cases p)
    case None
    then show ?thesis
      using assms by (simp add: onChange_def handleFileChange_def settle_def commit_settled)
  next
    case (Some f)
    then show ?thesis using onChange_file [OF assms(1,2), of f] by simp
  qed
  have "clickConvert e (ctl m) = ctl m \<or>
        clickConvert e (ctl m) = (ctl m)\<lparr>error := Some ''Upload an animated clip first.''\<rparr>"
    using assms(3) by (simp add: clickConvert_def handleConvert_def setError_def)
  then have "settled (m\<lparr>ctl := clickConvert e (ctl m)\<rparr>) \<and>
             fileRef (ctl (m\<lparr>ctl := clickConvert e (ctl m)\<rparr>)) = None"
    using assms(1,3) by (auto simp add: settled_def)
  then show "fileRef (ctl (onClick e m)) = None"
    by (simp add: onClick_def settle_def commit_settled)
qed

section \<open>The properties\<close>

subsection \<open>File names\<close>

text \<open>
  C1. The derived input name is \<open>source.\<close> followed by the lower-cased extension with
  every character outside \<open>[a-z0-9]\<close> removed, and \<open>mp4\<close> replaces an empty result.
  Evaluated on the code: \<open>clip.MOV\<close> gives \<open>mov\<close> and \<open>clip.tar.gz!\<close> gives \<open>gz\<close>,
  but the alternative \<open>|| 'mp4'\<close> is applied to the whole concatenation, which is never
  empty, so it is never taken (\<open>inputName_eq\<close>): a name that ends in a dot or in
  punctuation gives the empty extension, and a name without a dot gives the whole name as
  its extension.
\<close>

theorem inputName_fallback_never_taken:
  "inputName ''noext'' = ''source.noext'' \<and>
   inputName ''clip.'' = ''source.'' \<and>
   inputName ''clip.?!'' = ''source.'' \<and>
   inputName ''clip.MOV'' = ''source.mov'' \<and>
   inputName ''clip.tar.gz!'' = ''source.gz''"
  by (simp add: name_defs)

subsection \<open>Requesting a conversion without a file\<close>

text \<open>
  C2, as stated: a conversion requested with no staged file moves the stage to \<open>error\<close>.
  It does not: in the initial state no file is staged, and after the request the stage is
  still \<open>idle\<close>.
\<close>

theorem convert_without_file_stage_unchanged:
  "fileRef initial = None \<and> stage (handleConvert env_ok initial) = Idle \<and>
   stage (handleConvert env_ok initial) \<noteq> Error"
  by (simp add: handleConvert_def setError_def initial_def)

text \<open>
  C2, amended: a conversion requested with no staged file sets the error message to
  \<open>Upload an animated clip first.\<close> and changes nothing else: the stage and every other
  field keep their values, and no effect is performed (no bootstrap, no access to the
  virtual file system, no exec).
\<close>

theorem convert_without_file:
  assumes "fileRef s = None"
  shows "handleConvert e s = s\<lparr>error := Some ''Upload an animated clip first.''\<rparr> \<and>
         since s (handleConvert e s) = []"
  using assms by (simp add: handleConvert_def setError_def since_def)

theorem convert_without_file_witness:
  "fileRef initial = None \<and>
   handleConvert env_ok initial = initial\<lparr>error := Some ''Upload an animated clip first.''\<rparr> \<and>
   since initial (handleConvert env_ok initial) = []"
proof -
  have h: "fileRef initial = None" by (simp add: initial_def)
  show ?thesis using h convert_without_file [OF h, of env_ok] by blast
qed

subsection \<open>The result preview handle\<close>



subsection \<open>Requests while the engine is loading\<close>

text \<open>
  C4. While the stage is \<open>processing\<close> or \<open>loadingCore\<close> a new conversion request is
  ignored. Evaluated on the code in the state \<open>booting\<close> (a conversion is suspended in the
  bootstrap, the stage is \<open>loadingCore\<close>, no engine is cached yet): the button is not
  disabled, the click runs \<open>handleConvert\<close>, which starts a second bootstrap and a second
  conversion.
\<close>

theorem convert_enabled_while_loadingCore:
  "stage booting = LoadingCore \<and> ffmpegRef booting = None \<and>
   \<not> convertDisabled booting \<and>
   clickConvert env_ok booting = handleConvert env_ok booting \<and>
   stage_values (since booting (clickConvert env_ok booting)) =
     [LoadingCore, Ready, Processing, Complete] \<and>
   filter bootstrap_call (since booting (clickConvert env_ok booting)) =
     [Import, NewFFmpeg 0, OnProgress 0, Load 0]"
  by (simp add: clickConvert_def convertDisabled_def since_def concrete_defs run_defs)

subsection \<open>Progress values\<close>

text \<open>
  C5, as stated: the progress values of a conversion never decrease. They do: with the
  engine cached and the engine reporting the fractions 0.01 and 0.5 (both in \<open>[0, 1]\<close>, in
  increasing order), the values set are 8, 1, 50, 98, 100.
\<close>

theorem progress_drops_counterexample:
  "fileRef converted = Some clip \<and> execProgress env_ok = [1 / 100, 1 / 2] \<and>
   progress_values (since converted (handleConvert env_ok converted)) = [8, 1, 50, 98, 100] \<and>
   \<not> sorted (progress_values (since converted (handleConvert env_ok converted)))"
  by (simp add: since_def concrete_defs run_defs computed_def js_round_def)

text \<open>
  C5, amended: during a conversion of a staged file, when every fraction the engine reports
  lies in \<open>[0, 1]\<close>, every progress value set before the finalize step (before 98 is set)
  lies in \<open>[0, 97]\<close>; from the finalize step on, when it is reached, the values are 98
  alone, or 98 and then 100, and 100 is set exactly when the conversion ends in stage
  \<open>complete\<close>. Nothing is said about the order of the values before 98. (The
  values before are 5 and 0 around a bootstrap, 8 on entering \<open>processing\<close>, and
  \<open>min(97, round(p * 100))\<close> for each reported fraction \<open>p\<close>, in the order reported:
  \<open>handleConvert_progress\<close>.)
\<close>

theorem progress_bounded_until_finalize:
  assumes "fileRef s = Some f" and "\<forall>p \<in> set (execProgress e). 0 \<le> p \<and> p \<le> 1"
  shows "(\<forall>v \<in> set (takeWhile (\<lambda>v. v \<noteq> 98) (progress_values (since s (handleConvert e s)))).
            0 \<le> v \<and> v \<le> 97) \<and>
         dropWhile (\<lambda>v. v \<noteq> 98) (progress_values (since s (handleConvert e s)))
            \<in> {[], [98], [98, 100]} \<and>
         (dropWhile (\<lambda>v. v \<noteq> 98) (progress_values (since s (handleConvert e s))) = [98, 100]
            \<longleftrightarrow> stage (handleConvert e s) = Complete)"
proof -
  let ?vs = "progress_values (since s (handleConvert e s))"
  define boot :: "int list" where "boot = (if ffmpegRef s = None then [5, 0] else [])"
  define pre where "pre = boot @ 8 # map computed (execProgress e)"
  have bootB: "\<forall>v \<in> set boot. 0 \<le> v \<and> v \<le> 97" by (auto simp add: boot_def)
  have preB: "\<forall>v \<in> set pre. 0 \<le> v \<and> v \<le> 97"
    using assms(2) computed_bounds bootB by (auto simp add: pre_def)
  have V: "?vs =
     (if ffmpegRef s = None \<and> \<not> (importRes e = None \<and> loadRes e = None) then [5]
      else boot @
           8 # (if fetchRes e = None \<and> writeRes e = None
                then map computed (execProgress e) @
                     (if execRes e = None
                      then 98 # (if isl (readRes e) then [] else [100])
                      else [])
                else []))"
    unfolding boot_def by (rule handleConvert_progress [OF assms(1)])
  have S: "stage (handleConvert e s) =
     (if (ffmpegRef s = None \<longrightarrow> importRes e = None \<and> loadRes e = None) \<and>
         fetchRes e = None \<and> writeRes e = None \<and> execRes e = None \<and> \<not> isl (readRes e)
      then Complete else Error)"
    by (rule handleConvert_stage [OF assms(1)])
  consider
      (boot_fails) "ffmpegRef s = None \<and> \<not> (importRes e = None \<and> loadRes e = None)"
    | (staging_fails) "\<not> (ffmpegRef s = None \<and> \<not> (importRes e = None \<and> loadRes e = None))"
        "\<not> (fetchRes e = None \<and> writeRes e = None)"
    | (exec_fails) "\<not> (ffmpegRef s = None \<and> \<not> (importRes e = None \<and> loadRes e = None))"
        "fetchRes e = None \<and> writeRes e = None" "execRes e \<noteq> None"
    | (read_fails) "\<not> (ffmpegRef s = None \<and> \<not> (importRes e = None \<and> loadRes e = None))"
        "fetchRes e = None \<and> writeRes e = None" "execRes e = None" "isl (readRes e)"
    | (succeeds) "\<not> (ffmpegRef s = None \<and> \<not> (importRes e = None \<and> loadRes e = None))"
        "fetchRes e = None \<and> writeRes e = None" "execRes e = None" "\<not> isl (readRes e)"
    by blast
  then show ?thesis
  proof cases
    case boot_fails
    then have "?vs = [5]" using V by simp
    then have T: "takeWhile (\<lambda>v. v \<noteq> 98) ?vs = [5]" and D: "dropWhile (\<lambda>v. v \<noteq> 98) ?vs = []"
      by simp_all
    have St: "stage (handleConvert e s) = Error" using S boot_fails by auto
    show ?thesis unfolding T D St by simp
  next
    case staging_fails
    then have "?vs = boot @ [8]" using V by auto
    moreover have "\<forall>v \<in> set (boot @ [8]). v \<le> 97" using bootB by auto
    ultimately have T: "takeWhile (\<lambda>v. v \<noteq> 98) ?vs = boot @ [8]"
      and D: "dropWhile (\<lambda>v. v \<noteq> 98) ?vs = []"
      using before_finalize_none [of "boot @ [8]"] by simp_all
    have St: "stage (handleConvert e s) = Error" using S staging_fails by auto
    show ?thesis unfolding T D St using bootB by simp
  next
    case exec_fails
    then have "?vs = pre" using V by (auto simp add: pre_def)
    moreover have "\<forall>v \<in> set pre. v \<le> 97" using preB by auto
    ultimately have T: "takeWhile (\<lambda>v. v \<noteq> 98) ?vs = pre"
      and D: "dropWhile (\<lambda>v. v \<noteq> 98) ?vs = []"
      using before_finalize_none [of pre] by simp_all
    have St: "stage (handleConvert e s) = Error" using S exec_fails by auto
    show ?thesis unfolding T D St using preB by simp
  next
    case read_fails
    then have "?vs = pre @ 98 # []" using V by (auto simp add: pre_def)
    moreover have "\<forall>v \<in> set pre. v \<le> 97" using preB by auto
    ultimately have T: "takeWhile (\<lambda>v. v \<noteq> 98) ?vs = pre"
      and D: "dropWhile (\<lambda>v. v \<noteq> 98) ?vs = [98]"
      using before_finalize_split [of pre "[]"] by simp_all
    have St: "stage (handleConvert e s) = Error" using S read_fails by auto
    show ?thesis unfolding T D St using preB by simp
  next
    case succeeds
    then have "?vs = pre @ 98 # [100]" using V by (auto simp add: pre_def)
    moreover have "\<forall>v \<in> set pre. v \<le> 97" using preB by auto
    ultimately have T: "takeWhile (\<lambda>v. v \<noteq> 98) ?vs = pre"
      and D: "dropWhile (\<lambda>v. v \<noteq> 98) ?vs = [98, 100]"
      using before_finalize_split [of pre "[100]"] by simp_all
    have St: "stage (handleConvert e s) = Complete" using S succeeds by auto
    show ?thesis unfolding T D St using preB by simp
  qed
qed

theorem progress_bounded_until_finalize_witness:
  "fileRef converted = Some clip \<and> execProgress env_ok = [1 / 100, 1 / 2] \<and>
   takeWhile (\<lambda>v. v \<noteq> 98) (progress_values (since converted (handleConvert env_ok converted)))
     = [8, 1, 50] \<and>
   dropWhile (\<lambda>v. v \<noteq> 98) (progress_values (since converted (handleConvert env_ok converted)))
     = [98, 100] \<and>
   stage (handleConvert env_ok converted) = Complete"
proof -
  have h1: "fileRef converted = Some clip"
    by (simp add: concrete_defs run_defs)
  have ps: "execProgress env_ok = [1 / 100, 1 / 2]"
    by (simp add: env_ok_def)
  have h2: "\<forall>p \<in> set (execProgress env_ok). 0 \<le> p \<and> p \<le> 1"
    by (simp add: ps)
  have st: "stage (handleConvert env_ok converted) = Complete"
    by (simp add: concrete_defs run_defs)
  have vs: "progress_values (since converted (handleConvert env_ok converted)) = [8, 1, 50, 98, 100]"
    by (simp add: since_def concrete_defs run_defs computed_def js_round_def)
  have d: "dropWhile (\<lambda>v. v \<noteq> 98) (progress_values (since converted (handleConvert env_ok converted)))
     = [98, 100]"
    using progress_bounded_until_finalize [OF h1 h2] st by blast
  have t: "takeWhile (\<lambda>v. v \<noteq> 98) (progress_values (since converted (handleConvert env_ok converted)))
     = [8, 1, 50]"
    by (simp add: vs)
  show ?thesis using h1 ps t d st by blast
qed

subsection \<open>The cached engine\<close>

text \<open>
  C6, as stated: once a bootstrap has succeeded, every later call of \<open>ensureFFmpeg\<close>
  returns the same engine. It does not when two calls overlap. In \<open>booting\<close> a first call
  is suspended in its bootstrap, the stage is \<open>loadingCore\<close> and the button is enabled;
  a second call finds \<open>ffmpegRef\<close> empty and starts a bootstrap of its own. The first
  call creates instance 0 and the second instance 1. When the load of the first
  resolves, a call returns instance 0; when the load of the second resolves, line 60
  replaces the cached engine, and a call returns instance 1.
\<close>

theorem overlapping_bootstrap_replaces_engine:
  "stage booting = LoadingCore \<and> ffmpegRef booting = None \<and> \<not> convertDisabled booting \<and>
   fst (bootstrapImported (bootstrapStart booting)) = 0 \<and>
   fst (bootstrapImported (snd (bootstrapImported (bootstrapStart booting)))) = 1 \<and>
   ffmpegRef both_loading = None \<and>
   ensureFFmpeg env_ok first_loaded = (Inr 0, first_loaded) \<and>
   ensureFFmpeg env_ok second_loaded = (Inr 1, second_loaded)"
  by (simp add: convertDisabled_def concrete_defs ensureFFmpeg_def handleFileChange_def
      resetUrls_def bootstrapStart_def bootstrapImported_def bootstrapLoaded_def setter_defs Let_def)

text \<open>
  C6, amended: in every state in which an engine is cached, \<open>ensureFFmpeg\<close> returns
  that engine and leaves the state as it is (no bootstrap, no stage change), and a
  conversion of a staged file performs no bootstrap call, never enters \<open>loadingCore\<close>
  and sets the stage to \<open>processing\<close> first. Every piece of the controller keeps the
  cached engine (a conversion, a file selection, the processing part, the catch block,
  the effect cleanup, a progress event, the first two pieces of a bootstrap), except the
  last piece of a bootstrap, which caches the instance of its own call. So later calls
  return the same engine until the load of a bootstrap that overlapped resolves.
\<close>

theorem cached_engine_returned:
  assumes "ffmpegRef s = Some h"
  shows "ensureFFmpeg e s = (Inr h, s) \<and>
         (\<forall>f. fileRef s = Some f \<longrightarrow>
            filter bootstrap_call (since s (handleConvert e s)) = [] \<and>
            LoadingCore \<notin> set (stage_values (since s (handleConvert e s))) \<and>
            hd (stage_values (since s (handleConvert e s))) = Processing) \<and>
         ffmpegRef (handleConvert e s) = Some h \<and>
         ffmpegRef (handleFileChange p s) = Some h \<and>
         ffmpegRef (snd (processing e f0 s)) = Some h \<and>
         ffmpegRef (catchBlock t s) = Some h \<and>
         ffmpegRef (cleanup a b s) = Some h \<and>
         ffmpegRef (progressHandler q s) = Some h \<and>
         ffmpegRef (bootstrapStart s) = Some h \<and>
         ffmpegRef (snd (bootstrapImported s)) = Some h \<and>
         ffmpegRef (bootstrapLoaded i s) = Some i"
proof -
  have 1: "ensureFFmpeg e s = (Inr h, s)"
    using assms by (rule ensureFFmpeg_cached)
  have 2: "\<forall>f. fileRef s = Some f \<longrightarrow>
            filter bootstrap_call (since s (handleConvert e s)) = [] \<and>
            LoadingCore \<notin> set (stage_values (since s (handleConvert e s))) \<and>
            hd (stage_values (since s (handleConvert e s))) = Processing"
    using handleConvert_cached_stages [OF assms] by simp
  have 3: "ffmpegRef (handleConvert e s) = Some h"
    using assms by (rule handleConvert_ffmpegRef)
  have 4: "ffmpegRef (handleFileChange p s) = Some h"
    using assms by (simp add: handleFileChange_ffmpegRef)
  have 5: "ffmpegRef (snd (processing e f0 s)) = Some h"
    using assms processing_frame [of e f0 s] by simp
  have 6: "ffmpegRef (catchBlock t s) = Some h \<and> ffmpegRef (cleanup a b s) = Some h"
    using assms by (simp add: catchBlock_fields cleanup_fields)
  have 7: "ffmpegRef (progressHandler q s) = Some h \<and> ffmpegRef (bootstrapStart s) = Some h \<and>
           ffmpegRef (snd (bootstrapImported s)) = Some h \<and> ffmpegRef (bootstrapLoaded i s) = Some i"
    using assms by (simp add: bootstrap_ffmpegRef)
  show ?thesis using 1 2 3 4 5 6 7 by blast
qed

theorem cached_engine_returned_witness:
  "ffmpegRef first_loaded = Some 0 \<and> fileRef first_loaded = Some clip \<and>
   ensureFFmpeg env_exec_fails first_loaded = (Inr 0, first_loaded) \<and>
   filter bootstrap_call (since first_loaded (handleConvert env_exec_fails first_loaded)) = [] \<and>
   LoadingCore \<notin> set (stage_values (since first_loaded (handleConvert env_exec_fails first_loaded))) \<and>
   hd (stage_values (since first_loaded (handleConvert env_exec_fails first_loaded))) = Processing \<and>
   ffmpegRef (handleConvert env_exec_fails first_loaded) = Some 0 \<and>
   ffmpegRef (handleFileChange (Some clip) first_loaded) = Some 0 \<and>
   ffmpegRef (cleanup (Some 0) None first_loaded) = Some 0 \<and>
   ffmpegRef (bootstrapLoaded 1 first_loaded) = Some 1"
proof -
  have h: "ffmpegRef first_loaded = Some 0"
    by (simp add: first_loaded_def bootstrap_ffmpegRef)
  have f: "fileRef first_loaded = Some clip"
    by (simp add: concrete_defs handleFileChange_def resetUrls_def bootstrapStart_def
        bootstrapImported_def bootstrapLoaded_def setter_defs Let_def)
  show ?thesis
    using h f cached_engine_returned [OF h, of env_exec_fails "Some clip" clip NonError
        "Some 0" None 0 1]
    by blast
qed

subsection \<open>Failures\<close>

text \<open>
  C7, as stated: the error message is the message of the thrown \<open>Error\<close>, or a generic
  fallback when the cause carries no message. It is not the fallback for an \<open>Error\<close>
  whose message is empty: when \<open>exec\<close> rejects with such an \<open>Error\<close>, the error
  message set is the empty string.
\<close>

theorem empty_error_message_counterexample:
  "fileRef picked = Some clip \<and> execRes env_exec_fails_empty = Some (ErrorObj []) \<and>
   stage (handleConvert env_exec_fails_empty picked) = Error \<and>
   error (handleConvert env_exec_fails_empty picked) = Some [] \<and>
   error (handleConvert env_exec_fails_empty picked)
     \<noteq> Some ''Unexpected error while converting video.''"
  by (simp add: concrete_defs run_defs)

text \<open>
  C7, amended: when a file is staged and one of the awaited calls import, load (both only
  when no engine is cached), fetchFile, writeFile, exec and readFile rejects with \<open>t\<close>
  after the calls before it have resolved, the stage becomes \<open>error\<close>, the error message
  is the message of \<open>t\<close> when \<open>t\<close> is an \<open>Error\<close> (whatever that message is) and
  the fixed text \<open>Unexpected error while converting video.\<close> when it is not, the result
  slot and the registry of object URLs are as before, and no object URL has been created.
\<close>

theorem failure_caught:
  assumes "fileRef s = Some f"
    and "(ffmpegRef s = None \<and> importRes e = Some t) \<or>
         (ffmpegRef s = None \<and> importRes e = None \<and> loadRes e = Some t) \<or>
         ((ffmpegRef s = None \<longrightarrow> importRes e = None \<and> loadRes e = None) \<and>
          (fetchRes e = Some t \<or>
           (fetchRes e = None \<and> writeRes e = Some t) \<or>
           (fetchRes e = None \<and> writeRes e = None \<and> execRes e = Some t) \<or>
           (fetchRes e = None \<and> writeRes e = None \<and> execRes e = None \<and> readRes e = Inl t)))"
  shows "stage (handleConvert e s) = Error \<and>
         error (handleConvert e s) =
           Some (case t of ErrorObj message \<Rightarrow> message
                 | NonError \<Rightarrow> ''Unexpected error while converting video.'') \<and>
         resultUrl (handleConvert e s) = resultUrl s \<and>
         urlStore (handleConvert e s) = urlStore s \<and>
         urlNext (handleConvert e s) = urlNext s \<and>
         (\<forall>u. CreateObjectURL u \<notin> set (since s (handleConvert e s)))"
proof -
  have "fst (tryBlock e f s) = Inl t"
    unfolding tryBlock_result using assms(2) by (auto split: option.splits)
  then have T: "tryBlock e f s = (Inl t, snd (tryBlock e f s))"
    by (simp add: prod_eq_iff)
  show ?thesis using tryBlock_caught [OF assms(1) T] by blast
qed

theorem failure_caught_witness:
  "fileRef picked = Some clip \<and> ffmpegRef picked = None \<and>
   importRes env_exec_fails = None \<and> loadRes env_exec_fails = None \<and>
   fetchRes env_exec_fails = None \<and> writeRes env_exec_fails = None \<and>
   execRes env_exec_fails = Some (ErrorObj ''Aborted()'') \<and>
   stage (handleConvert env_exec_fails picked) = Error \<and>
   error (handleConvert env_exec_fails picked) = Some ''Aborted()'' \<and>
   resultUrl (handleConvert env_exec_fails picked) = resultUrl picked \<and>
   urlStore (handleConvert env_exec_fails picked) = urlStore picked \<and>
   urlNext (handleConvert env_exec_fails picked) = urlNext picked \<and>
   CreateObjectURL (urlNext picked) \<notin> set (since picked (handleConvert env_exec_fails picked))"
proof -
  have h1: "fileRef picked = Some clip"
    by (simp add: concrete_defs run_defs)
  have r: "ffmpegRef picked = None"
    by (simp add: concrete_defs run_defs)
  have ev: "importRes env_exec_fails = None \<and> loadRes env_exec_fails = None \<and>
            fetchRes env_exec_fails = None \<and> writeRes env_exec_fails = None \<and>
            execRes env_exec_fails = Some (ErrorObj ''Aborted()'')"
    by (simp add: env_exec_fails_def env_ok_def)
  have h2: "(ffmpegRef picked = None \<and> importRes env_exec_fails = Some (ErrorObj ''Aborted()'')) \<or>
         (ffmpegRef picked = None \<and> importRes env_exec_fails = None \<and>
          loadRes env_exec_fails = Some (ErrorObj ''Aborted()'')) \<or>
         ((ffmpegRef picked = None \<longrightarrow> importRes env_exec_fails = None \<and> loadRes env_exec_fails = None) \<and>
          (fetchRes env_exec_fails = Some (ErrorObj ''Aborted()'') \<or>
           (fetchRes env_exec_fails = None \<and> writeRes env_exec_fails = Some (ErrorObj ''Aborted()'')) \<or>
           (fetchRes env_exec_fails = None \<and> writeRes env_exec_fails = None \<and>
            execRes env_exec_fails = Some (ErrorObj ''Aborted()'')) \<or>
           (fetchRes env_exec_fails = None \<and> writeRes env_exec_fails = None \<and>
            execRes env_exec_fails = None \<and> readRes env_exec_fails = Inl (ErrorObj ''Aborted()''))))"
    using ev by simp
  show ?thesis
    using h1 r ev failure_caught [OF h1 h2, unfolded thrown.case] by blast
qed

subsection \<open>Selecting a file\<close>

text \<open>
  C8. In every stage, selecting a file sets the stage to \<open>ready\<close> and the progress to 0,
  releases the handles held before, and allocates exactly one new source preview handle
  for the file. Evaluated on the code, in the mounted component, for every settled,
  well-formed state: \<open>handleFileChange\<close> does set the stage and the progress, revokes
  what the slots held, creates one URL and puts it into the source slot. That changes
  \<open>sourceUrl\<close>, so \<open>resetUrls\<close> is re-created and React re-runs the effect of lines
  88--93: the cleanup of the last render empties both slots and clears \<open>fileRef\<close>, and
  the cleanup of the next render revokes the URL just created. When React has settled,
  no source preview handle exists and no file is staged.
\<close>

theorem selected_file_not_kept:
  assumes "settled m" and "urls_ok (ctl m)"
  shows "stage (ctl (onChange (Some f) m)) = Ready \<and>
         progress (ctl (onChange (Some f) m)) = 0 \<and>
         since (ctl m) (ctl (onChange (Some f) m)) =
           (case sourceUrl (ctl m) of None \<Rightarrow> [] | Some v \<Rightarrow> [RevokeObjectURL v]) @
           (case resultUrl (ctl m) of None \<Rightarrow> [] | Some v \<Rightarrow> [RevokeObjectURL v]) @
           [CreateObjectURL (urlNext (ctl m)), SetStage Ready, SetProgress 0] @
           (case sourceUrl (ctl m) of None \<Rightarrow> [] | Some v \<Rightarrow> [RevokeObjectURL v]) @
           (case resultUrl (ctl m) of None \<Rightarrow> [] | Some v \<Rightarrow> [RevokeObjectURL v]) @
           [RevokeObjectURL (urlNext (ctl m))] \<and>
         urlStore (ctl (onChange (Some f) m)) (urlNext (ctl m)) = None \<and>
         sourceUrl (ctl (onChange (Some f) m)) = None \<and>
         resultUrl (ctl (onChange (Some f) m)) = None \<and>
         fileRef (ctl (onChange (Some f) m)) = None"
  using assms by (rule onChange_file)

theorem selected_file_not_kept_witness:
  "settled mount \<and> urlNext (ctl mount) = 0 \<and>
   stage (ctl (onChange (Some clip) mount)) = Ready \<and>
   progress (ctl (onChange (Some clip) mount)) = 0 \<and>
   since (ctl mount) (ctl (onChange (Some clip) mount)) =
     [CreateObjectURL 0, SetStage Ready, SetProgress 0, RevokeObjectURL 0] \<and>
   urlStore (ctl (onChange (Some clip) mount)) 0 = None \<and>
   sourceUrl (ctl (onChange (Some clip) mount)) = None \<and>
   resultUrl (ctl (onChange (Some clip) mount)) = None \<and>
   fileRef (ctl (onChange (Some clip) mount)) = None"
proof -
  have h1: "settled mount"
    by (simp add: settled_def mount_def initial_def)
  have h2: "urls_ok (ctl mount)"
    by (simp add: urls_ok_def mount_def initial_def)
  have c: "urlNext (ctl mount) = 0 \<and> sourceUrl (ctl mount) = None \<and> resultUrl (ctl mount) = None"
    by (simp add: mount_def initial_def)
  show ?thesis
    using h1 c selected_file_not_kept [OF h1 h2, of clip] by simp
qed

subsection \<open>The output of a conversion\<close>

text \<open>
  C9. For every staged file, when the \<open>try\<close> block completes, \<open>exec\<close> has been called
  with \<open>realified.mp4\<close> as its last argument, that name has been read back, and the
  result slot holds a URL that refers to a blob of the bytes read with the type
  \<open>video/mp4\<close>.
\<close>

theorem output_name_and_type_fixed:
  assumes "fileRef s = Some f" and "tryBlock e f s = (Inr u, s1)"
  shows "handleConvert e s = s1 \<and> stage (handleConvert e s) = Complete \<and>
         Exec (execArgs (inputName (name f))) \<in> set (since s (handleConvert e s)) \<and>
         last (execArgs (inputName (name f))) = ''realified.mp4'' \<and>
         ReadFile ''realified.mp4'' \<in> set (since s (handleConvert e s)) \<and>
         (\<exists>d. readRes e = Inr d \<and>
              resultUrl (handleConvert e s) = Some (urlNext s) \<and>
              urlStore (handleConvert e s) (urlNext s) = Some (Blob d ''video/mp4''))"
proof -
  have H: "handleConvert e s = s1"
    using assms by (simp add: handleConvert_def)
  have T: "stage s1 = Complete \<and> progress s1 = 100 \<and>
         (\<exists>d. readRes e = Inr d \<and> urlStore s1 = (urlStore s)(urlNext s \<mapsto> Blob d ''video/mp4'')) \<and>
         resultUrl s1 = Some (urlNext s) \<and>
         Exec (execArgs (inputName (name f))) \<in> set (since s s1) \<and>
         ReadFile outputName \<in> set (since s s1)"
    using assms(2) by (rule tryBlock_returns)
  have L: "last (execArgs (inputName (name f))) = ''realified.mp4''"
    by (simp add: execArgs_def outputName_def)
  have O: "outputName = ''realified.mp4''" by (simp add: outputName_def)
  show ?thesis unfolding H using T L O by auto
qed

theorem output_name_and_type_fixed_witness:
  "fileRef picked = Some clip \<and>
   fst (tryBlock env_ok clip picked) = Inr () \<and>
   stage (handleConvert env_ok picked) = Complete \<and>
   Exec (execArgs (inputName (name clip))) \<in> set (since picked (handleConvert env_ok picked)) \<and>
   last (execArgs (inputName (name clip))) = ''realified.mp4'' \<and>
   ReadFile ''realified.mp4'' \<in> set (since picked (handleConvert env_ok picked)) \<and>
   readRes env_ok = Inr [7, 8] \<and>
   resultUrl (handleConvert env_ok picked) = Some (urlNext picked) \<and>
   urlStore (handleConvert env_ok picked) (urlNext picked) = Some (Blob [7, 8] ''video/mp4'')"
proof -
  have h1: "fileRef picked = Some clip"
    by (simp add: concrete_defs run_defs)
  have r: "fst (tryBlock env_ok clip picked) = Inr ()"
    by (simp add: tryBlock_result) (simp add: concrete_defs run_defs)
  then have h2: "tryBlock env_ok clip picked = (Inr (), snd (tryBlock env_ok clip picked))"
    by (simp add: prod_eq_iff)
  have d: "readRes env_ok = Inr [7, 8]"
    by (simp add: env_ok_def)
  show ?thesis
    using h1 r d output_name_and_type_fixed [OF h1 h2] by auto
qed

subsection \<open>An empty selection\<close>

text \<open>
  C10. When the selection event carries no file, \<open>handleFileChange\<close> returns at once and
  the whole controller state (stage, progress, status message, error, staged file, both
  preview handles, and everything else) is unchanged.
\<close>

theorem handleFileChange_no_file:
  "handleFileChange None s = s"
  by (simp add: handleFileChange_def)

end
